theory Spec2Isabelle
  imports Complex_Main "HOL-Library.Log_Nat"
begin

section \<open>AsciiBird: the frame loop of \<^verbatim>\<open>driver_comentarios-pt-br.c\<close>\<close>

text \<open>
  The program is a terminal Flappy Bird. This theory embeds its physics
  (\<^verbatim>\<open>get_flappy_position\<close>), its obstacle geometry (\<^verbatim>\<open>get_orow\<close>,
  \<^verbatim>\<open>pipe_refresh\<close>), its collision tests (\<^verbatim>\<open>crashed_into_pipe\<close>,
  \<^verbatim>\<open>draw_flappy\<close>), the failure screen and one iteration of the loop of
  \<^verbatim>\<open>main\<close>, and proves properties of them.

  Conventions of the embedding.
  \<^item> A C \<^verbatim>\<open>int\<close> is an \<^typ>\<open>int\<close>. Signed overflow is undefined in C, so the model
    describes the executions that have none; every quantity of a running game
    (rows, columns, ticks, scores) is far below \<open>2 ^ 31\<close>.
  \<^item> A \<^verbatim>\<open>float\<close> or \<^verbatim>\<open>double\<close> is the rational number it denotes, and every
    arithmetic operation and conversion of the source is followed by the rounding of
    its C result type: to nearest, ties to even, to 24 significant bits for
    \<^verbatim>\<open>float\<close> and 53 for \<^verbatim>\<open>double\<close> (each operation evaluated in the type of its
    operands, as on x86-64). The exponent is not bounded: no value of this program
    comes near overflow or the subnormal range. The conversion of a floating-point
    value to \<^verbatim>\<open>int\<close> drops the fraction; C leaves it undefined outside the range of
    \<^verbatim>\<open>int\<close>, where the model gives the truncated value.
  \<^item> Calls that only write to the terminal (\<^verbatim>\<open>mvprintw\<close>, \<^verbatim>\<open>clear\<close>,
    \<^verbatim>\<open>refresh\<close>, \<^verbatim>\<open>draw_pipe\<close>, \<^verbatim>\<open>draw_floor_and_ceiling\<close>) or sleep do not
    change the game state and are left out.
  \<^item> What the environment supplies (the key read by \<^verbatim>\<open>getch\<close>, the value returned by
    \<^verbatim>\<open>rand\<close>) is a parameter of the function that asks for it.
\<close>

subsection \<open>Floating-point rounding\<close>

text \<open>\<open>ilog2 x\<close> is the binary exponent of a positive \<open>x\<close>: \<open>2 powi ilog2 x \<le> x < 2 powi (ilog2 x + 1)\<close>.\<close>

definition ilog2 :: "rat \<Rightarrow> int" where
  "ilog2 x = (if 1 \<le> x then bitlen \<lfloor>x\<rfloor> - 1 else - bitlen (\<lceil>1 / x\<rceil> - 1))"

text \<open>Round to the nearest integer, a tie to the even one.\<close>

definition rne :: "rat \<Rightarrow> int" where
  "rne y = (let n = \<lfloor>y\<rfloor>; r = y - of_int n
            in if r < 1 / 2 then n else if 1 / 2 < r then n + 1
               else if even n then n else n + 1)"

text \<open>Round a positive number to \<open>p\<close> significant bits.\<close>

definition round_pos :: "nat \<Rightarrow> rat \<Rightarrow> rat" where
  "round_pos p x = (let q = 2 powi (ilog2 x + 1 - int p) in of_int (rne (x / q)) * q)"

definition round_prec :: "nat \<Rightarrow> rat \<Rightarrow> rat" where
  "round_prec p x = (if x = 0 then 0 else if 0 < x then round_pos p x else - round_pos p (- x))"

text \<open>The rounding of \<^verbatim>\<open>float\<close> and of \<^verbatim>\<open>double\<close>.\<close>

definition fl32 :: "rat \<Rightarrow> rat" where
  "fl32 = round_prec 24"

definition fl64 :: "rat \<Rightarrow> rat" where
  "fl64 = round_prec 53"

text \<open>Conversion of a floating-point value to \<^verbatim>\<open>int\<close>: the fraction is discarded (towards zero).\<close>

definition trunc_int :: "rat \<Rightarrow> int" where
  "trunc_int x = (if 0 \<le> x then \<lfloor>x\<rfloor> else \<lceil>x\<rceil>)"

text \<open>Division of C \<^verbatim>\<open>int\<close>s truncates towards zero.\<close>

definition c_div :: "int \<Rightarrow> int \<Rightarrow> int" where
  "c_div a b = sgn a * sgn b * (\<bar>a\<bar> div \<bar>b\<bar>)"

subsection \<open>Data\<close>

record vpipe =
  opening_height :: rat
  center :: int

record flappy =
  h0 :: int
  t :: int

text \<open>
  The global variables of the program, with the two locals of \<^verbatim>\<open>main\<close> that live
  across iterations (\<open>f\<close> and \<open>restart\<close>).
\<close>

record game =
  frame :: int
  score :: int
  sdigs :: int
  best_score :: int
  bdigs :: int
  p1 :: vpipe
  p2 :: vpipe
  f :: flappy
  restart :: bool

subsection \<open>Constants\<close>

text \<open>\<^verbatim>\<open>const float GRAV = 0.05; const float V0 = -0.5;\<close> The literals are doubles, converted to float.\<close>

definition GRAV :: rat where
  "GRAV = fl32 (fl64 (1 / 20))"

definition V0 :: rat where
  "V0 = fl32 (fl64 (- 1 / 2))"

definition NUM_ROWS :: int where
  "NUM_ROWS = 24"

definition NUM_COLS :: int where
  "NUM_COLS = 80"

definition PIPE_RADIUS :: int where
  "PIPE_RADIUS = 3"

definition OPENING_WIDTH :: int where
  "OPENING_WIDTH = 7"

definition FLAPPY_COL :: int where
  "FLAPPY_COL = 10"

text \<open>From \<^verbatim>\<open>limits.h\<close> and \<^verbatim>\<open>ncurses.h\<close>.\<close>

definition INT_MAX :: int where
  "INT_MAX = 2147483647"

definition KEY_UP :: int where
  "KEY_UP = 259"

subsection \<open>Obstacles\<close>

text \<open>
  \<^verbatim>\<open>rand() / ((float) INT_MAX) * 0.5 + 0.25\<close>, stored into a \<^verbatim>\<open>float\<close>. The parameter is
  the value \<^verbatim>\<open>rand()\<close> returns, between 0 and \<^verbatim>\<open>RAND_MAX\<close>; \<^verbatim>\<open>RAND_MAX\<close> is at most
  \<^verbatim>\<open>INT_MAX\<close>, and equal to it in the GNU C library. The division is a float division
  (the \<^verbatim>\<open>int\<close> is converted first); the product and the sum are double.
\<close>

definition rand_opening :: "int \<Rightarrow> rat" where
  "rand_opening r =
     fl32 (fl64 (fl64 (fl32 (fl32 (of_int r) / fl32 (of_int INT_MAX)) * fl64 (1 / 2)) + fl64 (1 / 4)))"

text \<open>The argument of \<^verbatim>\<open>pipe_refresh\<close> is \<^verbatim>\<open>&p1\<close> or \<^verbatim>\<open>&p2\<close>.\<close>

datatype pipe_ptr = Addr_p1 | Addr_p2

fun deref :: "pipe_ptr \<Rightarrow> game \<Rightarrow> vpipe" where
  "deref Addr_p1 g = p1 g"
| "deref Addr_p2 g = p2 g"

fun store :: "pipe_ptr \<Rightarrow> vpipe \<Rightarrow> game \<Rightarrow> game" where
  "store Addr_p1 p g = g\<lparr>p1 := p\<rparr>"
| "store Addr_p2 p g = g\<lparr>p2 := p\<rparr>"

text \<open>The body of the \<^verbatim>\<open>if\<close> of \<^verbatim>\<open>pipe_refresh\<close>: the pipe wraps to the right.\<close>

definition pipe_wrap :: "pipe_ptr \<Rightarrow> int \<Rightarrow> game \<Rightarrow> game" where
  "pipe_wrap ptr r g =
     (let g1 = store ptr ((deref ptr g)\<lparr>center := NUM_COLS + PIPE_RADIUS\<rparr>) g;
          g2 = store ptr ((deref ptr g1)\<lparr>opening_height := rand_opening r\<rparr>) g1;
          g3 = g2\<lparr>score := score g2 + 1\<rparr>
      in if sdigs g3 = 1 \<and> score g3 > 9 then g3\<lparr>sdigs := sdigs g3 + 1\<rparr>
         else if sdigs g3 = 2 \<and> score g3 > 99 then g3\<lparr>sdigs := sdigs g3 + 1\<rparr>
         else g3)"

definition pipe_refresh :: "pipe_ptr \<Rightarrow> int \<Rightarrow> game \<Rightarrow> game" where
  "pipe_refresh ptr r g =
     (let g' = (if center (deref ptr g) + PIPE_RADIUS < 0 then pipe_wrap ptr r g else g)
      in store ptr ((deref ptr g')\<lparr>center := center (deref ptr g') - 1\<rparr>) g')"

text \<open>
  \<^verbatim>\<open>p.opening_height * (NUM_ROWS - 1) - (top ? 1 : -1) * OPENING_WIDTH / 2\<close>: the
  subtrahend is an \<^verbatim>\<open>int\<close> expression (3 or \<open>-3\<close>), the product and the difference are
  float, and the result is converted to \<^verbatim>\<open>int\<close>. The parameter \<^verbatim>\<open>top\<close> is
  \<open>top_edge\<close> here.
\<close>

definition get_orow :: "vpipe \<Rightarrow> int \<Rightarrow> int" where
  "get_orow p top_edge =
     trunc_int (fl32 (fl32 (opening_height p * fl32 (of_int (NUM_ROWS - 1)))
                      - fl32 (of_int (c_div ((if top_edge \<noteq> 0 then 1 else - 1) * OPENING_WIDTH) 2))))"

subsection \<open>The bird\<close>

text \<open>
  \<^verbatim>\<open>f.h0 + V0 * f.t + 0.5 * GRAV * f.t * f.t\<close>: \<^verbatim>\<open>f.h0 + V0 * f.t\<close> is computed in float,
  \<^verbatim>\<open>0.5 * GRAV * f.t * f.t\<close> in double from left to right, their sum in double, and the
  result is converted to \<^verbatim>\<open>int\<close>.
\<close>

definition get_flappy_position :: "flappy \<Rightarrow> int" where
  "get_flappy_position b =
     trunc_int (fl64 (fl32 (fl32 (of_int (h0 b)) + fl32 (V0 * fl32 (of_int (t b))))
                      + fl64 (fl64 (fl64 (fl64 (1 / 2) * GRAV) * fl64 (of_int (t b))) * fl64 (of_int (t b)))))"

text \<open>The test \<^verbatim>\<open>GRAV * f.t + V0 > 0\<close> of \<^verbatim>\<open>draw_flappy\<close>, in float.\<close>

definition descending :: "flappy \<Rightarrow> bool" where
  "descending b = (0 < fl32 (fl32 (GRAV * fl32 (of_int (t b))) + V0))"

definition crashed_into_pipe :: "flappy \<Rightarrow> vpipe \<Rightarrow> int" where
  "crashed_into_pipe b p =
     (if FLAPPY_COL \<ge> center p - PIPE_RADIUS - 1 \<and> FLAPPY_COL \<le> center p + PIPE_RADIUS + 1
      then (if get_flappy_position b \<ge> get_orow p 1 + 1 \<and> get_flappy_position b \<le> get_orow p 0 - 1
            then 0 else 1)
      else 0)"

subsection \<open>The failure screen\<close>

text \<open>A call either ends the process (\<^verbatim>\<open>exit\<close>, with its status) or returns a value; both leave a state.\<close>

datatype call = Exit int game | Return int game

text \<open>
  \<^verbatim>\<open>failure_screen\<close> reads one key into a \<^verbatim>\<open>char\<close>, which keeps the low byte of the
  key code; \<open>113\<close> is \<^verbatim>\<open>'q'\<close>.
\<close>

definition failure_screen :: "int \<Rightarrow> game \<Rightarrow> call" where
  "failure_screen ch g =
     (if ch mod 256 = 113 then Exit 0 g
      else
        let g1 = (if score g > best_score g then g\<lparr>best_score := score g\<rparr> else g);
            g2 = (if bdigs g1 = 1 \<and> best_score g1 > 9 then g1\<lparr>bdigs := bdigs g1 + 1\<rparr>
                  else if bdigs g1 = 2 \<and> best_score g1 > 99 then g1\<lparr>bdigs := bdigs g1 + 1\<rparr>
                  else g1)
        in Return 1 (g2\<lparr>score := 0, sdigs := 1\<rparr>))"

subsection \<open>Drawing the bird, which is where collisions are detected\<close>

datatype flappy_branch = Hit_boundary | Hit_pipe | Drawn

definition draw_flappy_branch :: "flappy \<Rightarrow> game \<Rightarrow> flappy_branch" where
  "draw_flappy_branch b g =
     (let h = get_flappy_position b
      in if h \<le> 0 \<or> h \<ge> NUM_ROWS - 1 then Hit_boundary
         else if crashed_into_pipe b (p1 g) \<noteq> 0 \<or> crashed_into_pipe b (p2 g) \<noteq> 0 then Hit_pipe
         else Drawn)"

text \<open>The second parameter is the key that \<^verbatim>\<open>failure_screen\<close> reads if it is called.\<close>

definition draw_flappy :: "flappy \<Rightarrow> int \<Rightarrow> game \<Rightarrow> call" where
  "draw_flappy b ch g =
     (case draw_flappy_branch b g of
        Hit_boundary \<Rightarrow> failure_screen ch g
      | Hit_pipe \<Rightarrow> failure_screen ch g
      | Drawn \<Rightarrow> Return 0 g)"

subsection \<open>One iteration of the loop of \<^verbatim>\<open>main\<close>\<close>

text \<open>
  What one iteration reads: the key that \<^verbatim>\<open>getch\<close> returns in \<^verbatim>\<open>main\<close>
  (\<open>main_ch\<close>), the key that it returns in \<^verbatim>\<open>failure_screen\<close> (\<open>failure_ch\<close>), and
  the values of the calls of \<^verbatim>\<open>rand\<close> (two on a restart, one for each pipe that wraps).
\<close>

record frame_input =
  main_ch :: int
  failure_ch :: int
  rand_p1_init :: int
  rand_p2_init :: int
  rand_p1 :: int
  rand_p2 :: int

text \<open>The block \<^verbatim>\<open>if (restart) { ... }\<close>; the constants \<^verbatim>\<open>1.2\<close> and \<^verbatim>\<open>1.75\<close> are doubles.\<close>

definition restart_block :: "int \<Rightarrow> int \<Rightarrow> game \<Rightarrow> game" where
  "restart_block ra rb g =
     g\<lparr>p1 := \<lparr>opening_height = rand_opening ra,
               center = trunc_int (fl64 (fl64 (6 / 5) * fl64 (of_int (NUM_COLS - 1))))\<rparr>,
       p2 := \<lparr>opening_height = rand_opening rb,
               center = trunc_int (fl64 (fl64 (7 / 4) * fl64 (of_int (NUM_COLS - 1))))\<rparr>,
       f := \<lparr>h0 = c_div NUM_ROWS 2, t = 0\<rparr>,
       restart := False\<rparr>"

text \<open>The \<^verbatim>\<open>case KEY_UP\<close> of the \<^verbatim>\<open>switch\<close>: the boost.\<close>

definition boost :: "flappy \<Rightarrow> flappy" where
  "boost b = \<lparr>h0 = get_flappy_position b, t = 0\<rparr>"

datatype step = Exited int game | Continue game

definition main_iteration :: "frame_input \<Rightarrow> game \<Rightarrow> step" where
  "main_iteration inp g =
     (let g1 = (if restart g then restart_block (rand_p1_init inp) (rand_p2_init inp) g else g)
      in if main_ch inp = 113 then Exited 0 g1
         else
           let g2 = (if main_ch inp = KEY_UP then g1\<lparr>f := boost (f g1)\<rparr>
                     else g1\<lparr>f := (f g1)\<lparr>t := t (f g1) + 1\<rparr>\<rparr>);
               g3 = pipe_refresh Addr_p1 (rand_p1 inp) g2;
               g4 = pipe_refresh Addr_p2 (rand_p2 inp) g3
           in case draw_flappy (f g4) (failure_ch inp) g4 of
                Exit c g5 \<Rightarrow> Exited c g5
              | Return v g5 \<Rightarrow>
                  if v \<noteq> 0 then Continue (g5\<lparr>restart := True\<rparr>)
                  else Continue (g5\<lparr>frame := frame g5 + 1\<rparr>))"

text \<open>
  The state before the first iteration: the initialisers of the globals, \<^verbatim>\<open>restart = 1\<close>,
  and a bird that \<^verbatim>\<open>main\<close> has not initialised yet.
\<close>

definition init_game :: "flappy \<Rightarrow> game" where
  "init_game b =
     \<lparr>frame = 0, score = 0, sdigs = 1, best_score = 0, bdigs = 1,
      p1 = \<lparr>opening_height = 0, center = 0\<rparr>, p2 = \<lparr>opening_height = 0, center = 0\<rparr>,
      f = b, restart = True\<rparr>"

inductive reachable :: "game \<Rightarrow> bool" where
  start: "reachable (init_game b)"
| frame: "reachable g \<Longrightarrow> main_iteration inp g = Continue g' \<Longrightarrow> reachable g'"


subsection \<open>Properties of the rounding\<close>

lemma rne_of_int: "rne (of_int n) = n"
  by (simp add: rne_def)

lemma rne_bounds: "\<lfloor>y\<rfloor> \<le> rne y \<and> rne y \<le> \<lfloor>y\<rfloor> + 1"
  by (simp add: rne_def Let_def)

lemma rne_mono: "a \<le> b \<Longrightarrow> rne a \<le> rne b"
proof -
  assume ab: "a \<le> b"
  then have fl: "\<lfloor>a\<rfloor> \<le> \<lfloor>b\<rfloor>" by (rule floor_mono)
  show ?thesis
  proof (cases "\<lfloor>a\<rfloor> = \<lfloor>b\<rfloor>")
    case True
    with ab show ?thesis by (auto simp: rne_def Let_def)
  next
    case False
    with fl have "\<lfloor>a\<rfloor> + 1 \<le> \<lfloor>b\<rfloor>" by simp
    with rne_bounds [of a] rne_bounds [of b] show ?thesis by linarith
  qed
qed

lemma ilog2_bounds:
  assumes "0 < x"
  shows "2 powi (ilog2 x) \<le> x \<and> x < 2 powi (ilog2 x + 1)"
proof (cases "1 \<le> x")
  case True
  define n where "n = \<lfloor>x\<rfloor>"
  have n1: "1 \<le> n" using True by (simp add: n_def)
  then have b1: "1 \<le> bitlen n" by (simp add: bitlen_alt_def)
  from bitlen_bounds [of n] n1
  have lo: "2 ^ nat (bitlen n - 1) \<le> n" and hi: "n < 2 ^ nat (bitlen n)" by simp_all
  have xl: "of_int n \<le> x" by (simp add: n_def)
  have xh: "x < of_int (n + 1)" unfolding n_def by linarith
  have "(2::rat) ^ nat (bitlen n - 1) = of_int (2 ^ nat (bitlen n - 1))" by simp
  also have "\<dots> \<le> of_int n" using lo by (simp only: of_int_le_iff)
  finally have A: "(2::rat) ^ nat (bitlen n - 1) \<le> x" using xl by linarith
  from hi have "n + 1 \<le> 2 ^ nat (bitlen n)" by simp
  then have "(of_int (n + 1) :: rat) \<le> of_int (2 ^ nat (bitlen n))" by (simp only: of_int_le_iff)
  then have B: "x < (2::rat) ^ nat (bitlen n)" using xh by simp
  have e: "ilog2 x = bitlen n - 1" using True by (simp add: ilog2_def n_def)
  show ?thesis using A B b1 by (simp add: e power_int_def)
next
  case False
  define y where "y = 1 / x"
  have y1: "1 < y" using False assms by (simp add: y_def)
  define m where "m = \<lceil>y\<rceil> - 1"
  have m1: "1 \<le> m" using y1 unfolding m_def by linarith
  then have b1: "1 \<le> bitlen m" by (simp add: bitlen_alt_def)
  from bitlen_bounds [of m] m1
  have lo: "2 ^ nat (bitlen m - 1) \<le> m" and hi: "m < 2 ^ nat (bitlen m)" by simp_all
  have my: "of_int m < y" unfolding m_def by linarith
  have ym: "y \<le> of_int (m + 1)" unfolding m_def by simp
  have "(2::rat) ^ nat (bitlen m - 1) = of_int (2 ^ nat (bitlen m - 1))" by simp
  also have "\<dots> \<le> of_int m" using lo by (simp only: of_int_le_iff)
  finally have A: "(2::rat) ^ nat (bitlen m - 1) < y" using my by linarith
  from hi have "m + 1 \<le> 2 ^ nat (bitlen m)" by simp
  then have "(of_int (m + 1) :: rat) \<le> of_int (2 ^ nat (bitlen m))" by (simp only: of_int_le_iff)
  then have B: "y \<le> (2::rat) ^ nat (bitlen m)" using ym by simp
  have e: "ilog2 x = - bitlen m" using False by (simp add: ilog2_def m_def y_def)
  have x: "x = 1 / y" by (simp add: y_def)
  have C: "1 / (2::rat) ^ nat (bitlen m) \<le> x"
    unfolding x using B y1 by (simp add: frac_le)
  have D: "x < 1 / (2::rat) ^ nat (bitlen m - 1)"
    unfolding x using A by (simp add: frac_less2)
  have p1: "(2::rat) powi (- bitlen m) = 1 / 2 ^ nat (bitlen m)"
    using b1 by (simp add: power_int_def field_simps)
  have p2: "(2::rat) powi (1 - bitlen m) = 1 / 2 ^ nat (bitlen m - 1)"
  proof (cases "bitlen m = 1")
    case True then show ?thesis by simp
  next
    case False
    with b1 have "nat (- (1 - bitlen m)) = nat (bitlen m - 1)" by simp
    with False b1 show ?thesis by (simp add: power_int_def field_simps)
  qed
  show ?thesis using C D by (simp add: e p1 p2)
qed

lemma ilog2_unique:
  assumes "0 < x" "2 powi e \<le> x" "x < 2 powi (e + 1)"
  shows "ilog2 x = e"
proof (rule ccontr)
  assume ne: "ilog2 x \<noteq> e"
  from ilog2_bounds [OF assms(1)]
  have lo: "2 powi (ilog2 x) \<le> x" and hi: "x < 2 powi (ilog2 x + 1)" by simp_all
  show False
  proof (cases "ilog2 x < e")
    case True
    then have "(2::rat) powi (ilog2 x + 1) \<le> 2 powi e"
      by (intro power_int_increasing) simp_all
    with hi assms(2) show False by linarith
  next
    case False
    with ne have "e + 1 \<le> ilog2 x" by simp
    then have "(2::rat) powi (e + 1) \<le> 2 powi (ilog2 x)"
      by (intro power_int_increasing) simp_all
    with lo assms(3) show False by linarith
  qed
qed

lemma ilog2_mono:
  assumes "0 < x" "x \<le> y"
  shows "ilog2 x \<le> ilog2 y"
proof (rule ccontr)
  assume "\<not> ilog2 x \<le> ilog2 y"
  then have "ilog2 y + 1 \<le> ilog2 x" by simp
  then have "(2::rat) powi (ilog2 y + 1) \<le> 2 powi (ilog2 x)"
    by (intro power_int_increasing) simp_all
  moreover have "y < 2 powi (ilog2 y + 1)" using ilog2_bounds [of y] assms by simp
  moreover have "2 powi (ilog2 x) \<le> x" using ilog2_bounds [of x] assms by simp
  ultimately show False using assms by linarith
qed


lemma pow_powi: "(2::rat) ^ n * 2 powi (e - int n) = 2 powi e"
proof -
  have "(2::rat) powi (int n + (e - int n)) = 2 powi (int n) * 2 powi (e - int n)"
    by (rule power_int_add) simp
  then show ?thesis by simp
qed

lemma powi_lo: "0 < p \<Longrightarrow> (2::rat) powi e = 2 ^ (p - 1) * 2 powi (e + 1 - int p)"
proof -
  assume "0 < p"
  then have "e + 1 - int p = e - int (p - 1)" by simp
  then show ?thesis by (simp only: pow_powi)
qed

lemma powi_hi: "(2::rat) powi (e + 1) = 2 ^ p * 2 powi (e + 1 - int p)"
  by (simp only: pow_powi)

lemma round_pos_scaled:
  assumes "0 < x" "0 < p"
  shows "2 ^ (p - 1) \<le> x / 2 powi (ilog2 x + 1 - int p) \<and> x / 2 powi (ilog2 x + 1 - int p) < 2 ^ p"
proof -
  let ?e = "ilog2 x"
  let ?q = "(2::rat) powi (?e + 1 - int p)"
  have q0: "0 < ?q" by simp
  from ilog2_bounds [OF assms(1)] have lo: "2 powi ?e \<le> x" and hi: "x < 2 powi (?e + 1)" by simp_all
  have a: "(2::rat) powi ?e = 2 ^ (p - 1) * ?q" using assms(2) by (rule powi_lo)
  have b: "(2::rat) powi (?e + 1) = 2 ^ p * ?q" by (rule powi_hi)
  from lo a have "2 ^ (p - 1) * ?q \<le> x" by (simp only:)
  then have A: "2 ^ (p - 1) \<le> x / ?q" using q0 by (simp add: pos_le_divide_eq)
  from hi b have "x < 2 ^ p * ?q" by (simp only:)
  then have B: "x / ?q < 2 ^ p" using q0 by (simp add: pos_divide_less_eq)
  from A B show ?thesis by simp
qed

lemma round_pos_bounds:
  assumes "0 < x" "0 < p"
  shows "2 powi (ilog2 x) \<le> round_pos p x \<and> round_pos p x \<le> 2 powi (ilog2 x + 1)"
proof -
  let ?e = "ilog2 x"
  let ?q = "(2::rat) powi (?e + 1 - int p)"
  have q0: "0 < ?q" by simp
  from round_pos_scaled [OF assms]
  have lo: "of_int (2 ^ (p - 1)) \<le> x / ?q" and hi: "x / ?q \<le> of_int (2 ^ p)" by simp_all
  from rne_mono [OF lo] have A: "2 ^ (p - 1) \<le> rne (x / ?q)" by (simp only: rne_of_int)
  from rne_mono [OF hi] have B: "rne (x / ?q) \<le> 2 ^ p" by (simp only: rne_of_int)
  have a: "(2::rat) powi ?e = 2 ^ (p - 1) * ?q" using assms(2) by (rule powi_lo)
  have b: "(2::rat) powi (?e + 1) = 2 ^ p * ?q" by (rule powi_hi)
  have A': "(2::rat) ^ (p - 1) \<le> of_int (rne (x / ?q))"
  proof -
    have "(2::rat) ^ (p - 1) = of_int (2 ^ (p - 1))" by simp
    also have "\<dots> \<le> of_int (rne (x / ?q))" using A by (simp only: of_int_le_iff)
    finally show ?thesis .
  qed
  have B': "of_int (rne (x / ?q)) \<le> (2::rat) ^ p"
  proof -
    have "(of_int (rne (x / ?q)) :: rat) \<le> of_int (2 ^ p)" using B by (simp only: of_int_le_iff)
    then show ?thesis by simp
  qed
  have "2 ^ (p - 1) * ?q \<le> of_int (rne (x / ?q)) * ?q"
    using A' q0 by (simp only: mult_le_cancel_right_pos)
  moreover have "of_int (rne (x / ?q)) * ?q \<le> 2 ^ p * ?q"
    using B' q0 by (simp only: mult_le_cancel_right_pos)
  ultimately show ?thesis unfolding a b round_pos_def Let_def by blast
qed

lemma round_pos_pos: "0 < x \<Longrightarrow> 0 < p \<Longrightarrow> 0 < round_pos p x"
proof -
  assume a: "0 < x" "0 < p"
  have "(0::rat) < 2 powi (ilog2 x)" by simp
  with round_pos_bounds [OF a] show ?thesis by linarith
qed

lemma round_pos_mono:
  assumes "0 < x" "x \<le> y" "0 < p"
  shows "round_pos p x \<le> round_pos p y"
proof (cases "ilog2 x = ilog2 y")
  case True
  let ?q = "(2::rat) powi (ilog2 y + 1 - int p)"
  have q0: "0 < ?q" by simp
  have "x / ?q \<le> y / ?q" using assms(2) q0 by (simp add: divide_right_mono)
  from rne_mono [OF this] have "(of_int (rne (x / ?q)) :: rat) \<le> of_int (rne (y / ?q))"
    by (simp only: of_int_le_iff)
  then have "of_int (rne (x / ?q)) * ?q \<le> of_int (rne (y / ?q)) * ?q"
    using q0 by (simp only: mult_le_cancel_right_pos)
  then show ?thesis by (simp add: round_pos_def Let_def True)
next
  case False
  have y0: "0 < y" using assms by linarith
  from False ilog2_mono [OF assms(1,2)] have "ilog2 x + 1 \<le> ilog2 y" by simp
  then have "(2::rat) powi (ilog2 x + 1) \<le> 2 powi (ilog2 y)"
    by (intro power_int_increasing) simp_all
  with round_pos_bounds [OF assms(1,3)] round_pos_bounds [OF y0 assms(3)]
  show ?thesis by linarith
qed

lemma round_prec_mono:
  assumes "x \<le> y" "0 < p"
  shows "round_prec p x \<le> round_prec p y"
proof -
  consider "0 < x" | "x \<le> 0" "0 \<le> y" | "y < 0" using assms(1) by linarith
  then show ?thesis
  proof cases
    case 1
    then have "0 < y" using assms(1) by linarith
    with 1 round_pos_mono [OF 1 assms] show ?thesis by (simp add: round_prec_def)
  next
    case 2
    have "round_prec p x \<le> 0"
      using 2(1) round_pos_pos [of "- x" p] assms(2) by (auto simp: round_prec_def)
    moreover have "0 \<le> round_prec p y"
      using 2(2) round_pos_pos [of y p] assms(2) by (auto simp: round_prec_def less_eq_rat_def)
    ultimately show ?thesis by linarith
  next
    case 3
    then have x0: "x < 0" using assms(1) by linarith
    have "round_pos p (- y) \<le> round_pos p (- x)"
      using round_pos_mono [of "- y" "- x" p] 3 assms by simp
    with 3 x0 show ?thesis by (simp add: round_prec_def)
  qed
qed

lemma round_pos_exact:
  assumes "0 < x" "x = of_int m * 2 powi k" "m < 2 ^ p" "0 < p"
  shows "round_pos p x = x"
proof -
  let ?e = "ilog2 x"
  let ?q = "(2::rat) powi (?e + 1 - int p)"
  have q0: "0 < ?q" by simp
  from ilog2_bounds [OF assms(1)] have lo: "2 powi ?e \<le> x" by simp
  have k: "?e + 1 - int p - k \<le> 0"
  proof (rule ccontr)
    assume "\<not> ?e + 1 - int p - k \<le> 0"
    then have "k + int p \<le> ?e" by simp
    then have le: "(2::rat) powi (k + int p) \<le> 2 powi ?e"
      by (intro power_int_increasing) simp_all
    have "(of_int m :: rat) < of_int (2 ^ p)" using assms(3) by (simp only: of_int_less_iff)
    then have "(of_int m :: rat) < 2 powi (int p)" by simp
    then have "of_int m * (2::rat) powi k < 2 powi (int p) * 2 powi k"
      by (simp only: mult_less_cancel_right_pos zero_less_power_int zero_less_numeral)
    also have "\<dots> = 2 powi (k + int p)" by (simp add: power_int_add)
    finally show False using le lo assms(2) by linarith
  qed
  define j where "j = nat (k - (?e + 1 - int p))"
  have kj: "k = (?e + 1 - int p) + int j" using k by (simp add: j_def)
  have "k - int j = ?e + 1 - int p" using kj by simp
  with pow_powi [of j k] have pk: "(2::rat) powi k = 2 ^ j * ?q" by simp
  have "x = of_int m * (2 ^ j * ?q)" by (subst assms(2), simp only: pk)
  then have xq: "x = of_int (m * 2 ^ j) * ?q" by (simp add: mult.assoc)
  have qn: "?q \<noteq> 0" by simp
  have "of_int (m * 2 ^ j) = x / ?q"
    by (subst nonzero_eq_divide_eq [OF qn]) (rule xq [symmetric])
  then have "rne (x / ?q) = m * 2 ^ j" by (simp only: rne_of_int flip: \<open>of_int (m * 2 ^ j) = x / ?q\<close>)
  then have "round_pos p x = of_int (m * 2 ^ j) * ?q" by (simp only: round_pos_def Let_def)
  with xq show ?thesis by (simp only:)
qed

lemma round_prec_exact:
  assumes "x = of_int m * 2 powi k" "\<bar>m\<bar> < 2 ^ p" "0 < p"
  shows "round_prec p x = x"
proof -
  consider "x = 0" | "0 < x" | "x < 0" by linarith
  then show ?thesis
  proof cases
    case 1 then show ?thesis by (simp add: round_prec_def)
  next
    case 2
    have "m < 2 ^ p" using assms(2) by linarith
    from round_pos_exact [OF 2 assms(1) this assms(3)] 2 show ?thesis
      by (simp add: round_prec_def)
  next
    case 3
    then have nx: "0 < - x" by simp
    have e: "- x = of_int (- m) * 2 powi k" using assms(1) by simp
    have "- m < 2 ^ p" using assms(2) by linarith
    from round_pos_exact [OF nx e this assms(3)] 3 show ?thesis
      by (simp add: round_prec_def)
  qed
qed

lemma round_prec_of_int:
  assumes "\<bar>n\<bar> \<le> 2 ^ p" "0 < p"
  shows "round_prec p (of_int n) = of_int n"
proof (cases "\<bar>n\<bar> = 2 ^ p")
  case False
  with assms have lt: "\<bar>n\<bar> < 2 ^ p" by simp
  have "(of_int n :: rat) = of_int n * 2 powi 0" by simp
  from round_prec_exact [OF this lt assms(2)] show ?thesis .
next
  case True
  define s :: int where "s = (if 0 \<le> n then 1 else - 1)"
  have n: "n = s * 2 ^ p" using True by (auto simp: s_def abs_if split: if_splits)
  obtain p' where p': "p = Suc p'" using assms(2) by (cases p) auto
  have e: "(of_int n :: rat) = of_int (s * 2 ^ p') * 2 powi 1"
    by (simp add: n p')
  have lt: "\<bar>s * 2 ^ p'\<bar> < 2 ^ p" by (simp add: s_def p' abs_mult)
  from round_prec_exact [OF e lt assms(2)] show ?thesis .
qed

subsection \<open>Rounding of the program's types\<close>

lemma fl32_mono: "x \<le> y \<Longrightarrow> fl32 x \<le> fl32 y"
  by (simp add: fl32_def round_prec_mono)

lemma fl64_mono: "x \<le> y \<Longrightarrow> fl64 x \<le> fl64 y"
  by (simp add: fl64_def round_prec_mono)

lemma fl32_exact: "x = of_int m * 2 powi k \<Longrightarrow> \<bar>m\<bar> < 2 ^ 24 \<Longrightarrow> fl32 x = x"
  using round_prec_exact [of x m k 24] by (simp add: fl32_def)

lemma fl64_exact: "x = of_int m * 2 powi k \<Longrightarrow> \<bar>m\<bar> < 2 ^ 53 \<Longrightarrow> fl64 x = x"
  using round_prec_exact [of x m k 53] by (simp add: fl64_def)

lemma fl32_of_int: "\<bar>n\<bar> \<le> 2 ^ 24 \<Longrightarrow> fl32 (of_int n) = of_int n"
  unfolding fl32_def by (rule round_prec_of_int) simp_all

lemma fl64_of_int: "\<bar>n\<bar> \<le> 2 ^ 53 \<Longrightarrow> fl64 (of_int n) = of_int n"
  unfolding fl64_def by (rule round_prec_of_int) simp_all

lemma fl_zero: "fl32 0 = 0" "fl64 0 = 0"
  by (simp_all add: fl32_def fl64_def round_prec_def)

text \<open>Rules that let the simplifier evaluate a rounding at a numeral.\<close>

lemma bitlen_numeral:
  "bitlen 1 = 1"
  "bitlen (numeral (Num.Bit0 n)) = bitlen (numeral n) + 1"
  "bitlen (numeral (Num.Bit1 n)) = bitlen (numeral n) + 1"
proof -
  show "bitlen 1 = 1" by (simp add: bitlen_alt_def)
  have "bitlen (numeral (Num.Bit0 n)) = bitlen (numeral (Num.Bit0 n) div 2) + 1"
    by (subst compute_bitlen) simp
  then show "bitlen (numeral (Num.Bit0 n)) = bitlen (numeral n) + 1" by simp
  have "bitlen (numeral (Num.Bit1 n)) = bitlen (numeral (Num.Bit1 n) div 2) + 1"
    by (subst compute_bitlen) simp
  then show "bitlen (numeral (Num.Bit1 n)) = bitlen (numeral n) + 1" by simp
qed

lemma floor_rat_numeral:
  "\<lfloor>numeral a / numeral b :: rat\<rfloor> = numeral a div numeral b"
  "\<lfloor>- (numeral a / numeral b) :: rat\<rfloor> = - numeral a div numeral b"
  "\<lceil>numeral a / numeral b :: rat\<rceil> = - (- numeral a div numeral b)"
  "\<lceil>- (numeral a / numeral b) :: rat\<rceil> = - (numeral a div numeral b)"
proof -
  show a: "\<lfloor>numeral a / numeral b :: rat\<rfloor> = numeral a div numeral b"
    by (metis floor_divide_of_int_eq of_int_numeral)
  show b: "\<lfloor>- (numeral a / numeral b) :: rat\<rfloor> = - numeral a div numeral b"
    by (metis divide_minus_left floor_divide_of_int_eq of_int_neg_numeral of_int_numeral)
  show "\<lceil>numeral a / numeral b :: rat\<rceil> = - (- numeral a div numeral b)"
    unfolding ceiling_def b by simp
  show "\<lceil>- (numeral a / numeral b) :: rat\<rceil> = - (numeral a div numeral b)"
    unfolding ceiling_def by (simp add: a)
qed

lemmas fl_eval = fl32_def fl64_def round_prec_def round_pos_def rne_def Let_def ilog2_def
  trunc_int_def bitlen_numeral floor_rat_numeral

lemma fl32_values:
  "fl32 1 = 1" "fl32 (1 / 4) = 1 / 4" "fl32 (3 / 4) = 3 / 4"
  "fl32 2147483647 = 2147483648"
  by (simp_all add: fl_eval)

lemma fl64_values:
  "fl64 (1 / 2) = 1 / 2" "fl64 (1 / 4) = 1 / 4" "fl64 (3 / 4) = 3 / 4"
  by (simp_all add: fl_eval)

lemma GRAV_value: "GRAV = 13421773 / 268435456"
  by (simp add: GRAV_def fl_eval)

lemma V0_value: "V0 = - 1 / 2"
  by (simp add: V0_def fl_eval)

text \<open>Everything needed to evaluate the functions of the program at concrete arguments.\<close>

lemmas game_eval = get_flappy_position_def get_orow_def crashed_into_pipe_def descending_def
  rand_opening_def restart_block_def boost_def c_div_def GRAV_value V0_value
  NUM_ROWS_def NUM_COLS_def PIPE_RADIUS_def OPENING_WIDTH_def FLAPPY_COL_def INT_MAX_def
  KEY_UP_def fl_eval

lemma trunc_int_of_int: "trunc_int (of_int n) = n"
  by (simp add: trunc_int_def)

lemma trunc_int_mono: "x \<le> y \<Longrightarrow> trunc_int x \<le> trunc_int y"
proof -
  assume xy: "x \<le> y"
  consider "0 \<le> x" | "x < 0" "0 \<le> y" | "y < 0" by linarith
  then show ?thesis
  proof cases
    case 1
    with xy show ?thesis by (simp add: trunc_int_def floor_mono)
  next
    case 2
    then have a: "\<lceil>x\<rceil> \<le> 0" "0 \<le> \<lfloor>y\<rfloor>" by (simp_all add: ceiling_le_zero)
    have "trunc_int x = \<lceil>x\<rceil>" "trunc_int y = \<lfloor>y\<rfloor>" using 2 by (simp_all add: trunc_int_def)
    with a show ?thesis by linarith
  next
    case 3
    with xy show ?thesis by (simp add: trunc_int_def ceiling_mono)
  qed
qed

subsection \<open>Collision with a pipe\<close>

text \<open>
  C1. For every bird and every pipe, \<^verbatim>\<open>crashed_into_pipe\<close> returns true exactly when
  the bird's column \<open>FLAPPY_COL\<close> lies in
  \<open>[center - PIPE_RADIUS - 1, center + PIPE_RADIUS + 1]\<close> and the bird's computed row is
  outside \<open>[get_orow p 1 + 1, get_orow p 0 - 1]\<close>; when the column is outside that band
  the result is false whatever the row. The result is always 0 or 1.
\<close>

theorem crashed_into_pipe_iff:
  "((crashed_into_pipe b p \<noteq> 0) =
      ((center p - PIPE_RADIUS - 1 \<le> FLAPPY_COL \<and> FLAPPY_COL \<le> center p + PIPE_RADIUS + 1) \<and>
       \<not> (get_orow p 1 + 1 \<le> get_flappy_position b \<and>
          get_flappy_position b \<le> get_orow p 0 - 1))) \<and>
   (\<not> (center p - PIPE_RADIUS - 1 \<le> FLAPPY_COL \<and> FLAPPY_COL \<le> center p + PIPE_RADIUS + 1)
      \<longrightarrow> crashed_into_pipe b p = 0) \<and>
   (crashed_into_pipe b p = 0 \<or> crashed_into_pipe b p = 1)"
  by (auto simp: crashed_into_pipe_def)

theorem crashed_into_pipe_iff_witness:
  "\<not> (center \<lparr>opening_height = 1 / 2, center = 50\<rparr> - PIPE_RADIUS - 1 \<le> FLAPPY_COL \<and>
      FLAPPY_COL \<le> center \<lparr>opening_height = 1 / 2, center = 50\<rparr> + PIPE_RADIUS + 1) \<and>
   crashed_into_pipe \<lparr>h0 = 2, t = 0\<rparr> \<lparr>opening_height = 1 / 2, center = 50\<rparr> = 0 \<and>
   center \<lparr>opening_height = 1 / 2, center = 12\<rparr> - PIPE_RADIUS - 1 \<le> FLAPPY_COL \<and>
   FLAPPY_COL \<le> center \<lparr>opening_height = 1 / 2, center = 12\<rparr> + PIPE_RADIUS + 1 \<and>
   get_orow \<lparr>opening_height = 1 / 2, center = 12\<rparr> 1 = 8 \<and>
   get_orow \<lparr>opening_height = 1 / 2, center = 12\<rparr> 0 = 14 \<and>
   get_flappy_position \<lparr>h0 = 2, t = 0\<rparr> = 2 \<and>
   crashed_into_pipe \<lparr>h0 = 2, t = 0\<rparr> \<lparr>opening_height = 1 / 2, center = 12\<rparr> \<noteq> 0 \<and>
   get_flappy_position \<lparr>h0 = 12, t = 0\<rparr> = 12 \<and>
   crashed_into_pipe \<lparr>h0 = 12, t = 0\<rparr> \<lparr>opening_height = 1 / 2, center = 12\<rparr> = 0"
proof -
  have a: "get_orow \<lparr>opening_height = 1 / 2, center = 12\<rparr> 1 = 8"
    "get_orow \<lparr>opening_height = 1 / 2, center = 12\<rparr> 0 = 14"
    "get_flappy_position \<lparr>h0 = 2, t = 0\<rparr> = 2"
    "get_flappy_position \<lparr>h0 = 12, t = 0\<rparr> = 12"
    by (simp_all add: game_eval)
  from crashed_into_pipe_iff [of "\<lparr>h0 = 2, t = 0\<rparr>" "\<lparr>opening_height = 1 / 2, center = 50\<rparr>"]
    crashed_into_pipe_iff [of "\<lparr>h0 = 2, t = 0\<rparr>" "\<lparr>opening_height = 1 / 2, center = 12\<rparr>"]
    crashed_into_pipe_iff [of "\<lparr>h0 = 12, t = 0\<rparr>" "\<lparr>opening_height = 1 / 2, center = 12\<rparr>"]
  show ?thesis by (simp add: a PIPE_RADIUS_def FLAPPY_COL_def)
qed

subsection \<open>Collision with the ceiling and the floor\<close>

text \<open>
  C4. The boundary test of \<^verbatim>\<open>draw_flappy\<close> sends the game to the failure screen
  exactly when the computed row is \<open>\<le> 0\<close> or \<open>\<ge> NUM_ROWS - 1\<close>. A row from 1 through
  \<open>NUM_ROWS - 2\<close> never takes that branch, whatever the two pipes are; the bird is then
  drawn unless it has crashed into a pipe.
\<close>

theorem boundary_collision_iff:
  "((draw_flappy_branch b g = Hit_boundary) =
      (get_flappy_position b \<le> 0 \<or> get_flappy_position b \<ge> NUM_ROWS - 1)) \<and>
   (draw_flappy_branch b g = Hit_boundary \<longrightarrow> draw_flappy b k g = failure_screen k g) \<and>
   (1 \<le> get_flappy_position b \<and> get_flappy_position b \<le> NUM_ROWS - 2 \<longrightarrow>
      draw_flappy_branch b g \<noteq> Hit_boundary \<and>
      (crashed_into_pipe b (p1 g) = 0 \<and> crashed_into_pipe b (p2 g) = 0 \<longrightarrow>
         draw_flappy b k g = Return 0 g))"
  by (auto simp: draw_flappy_branch_def draw_flappy_def Let_def NUM_ROWS_def)

theorem boundary_collision_iff_witness:
  "draw_flappy_branch \<lparr>h0 = 0, t = 0\<rparr> (init_game \<lparr>h0 = 0, t = 0\<rparr>) = Hit_boundary \<and>
   draw_flappy \<lparr>h0 = 0, t = 0\<rparr> 10 (init_game \<lparr>h0 = 0, t = 0\<rparr>) =
     failure_screen 10 (init_game \<lparr>h0 = 0, t = 0\<rparr>) \<and>
   1 \<le> get_flappy_position \<lparr>h0 = 12, t = 1\<rparr> \<and>
   get_flappy_position \<lparr>h0 = 12, t = 1\<rparr> \<le> NUM_ROWS - 2 \<and>
   draw_flappy_branch \<lparr>h0 = 12, t = 1\<rparr> (restart_block 0 0 (init_game \<lparr>h0 = 0, t = 0\<rparr>))
     \<noteq> Hit_boundary \<and>
   draw_flappy \<lparr>h0 = 12, t = 1\<rparr> 10 (restart_block 0 0 (init_game \<lparr>h0 = 0, t = 0\<rparr>)) =
     Return 0 (restart_block 0 0 (init_game \<lparr>h0 = 0, t = 0\<rparr>))"
proof -
  have a: "get_flappy_position \<lparr>h0 = 0, t = 0\<rparr> = 0" by (simp add: game_eval)
  have b: "get_flappy_position \<lparr>h0 = 12, t = 1\<rparr> = 11" by (simp add: game_eval)
  have c: "crashed_into_pipe \<lparr>h0 = 12, t = 1\<rparr>
             (p1 (restart_block 0 0 (init_game \<lparr>h0 = 0, t = 0\<rparr>))) = 0"
    by (simp add: init_game_def game_eval)
  have d: "crashed_into_pipe \<lparr>h0 = 12, t = 1\<rparr>
             (p2 (restart_block 0 0 (init_game \<lparr>h0 = 0, t = 0\<rparr>))) = 0"
    by (simp add: init_game_def game_eval)
  from boundary_collision_iff [of "\<lparr>h0 = 0, t = 0\<rparr>" "init_game \<lparr>h0 = 0, t = 0\<rparr>" 10]
    boundary_collision_iff [of "\<lparr>h0 = 12, t = 1\<rparr>"
      "restart_block 0 0 (init_game \<lparr>h0 = 0, t = 0\<rparr>)" 10]
  show ?thesis by (simp add: a b c d NUM_ROWS_def)
qed

subsection \<open>The digit counters\<close>

lemma score_store [simp]:
  "score (store ptr p g) = score g" "sdigs (store ptr p g) = sdigs g"
  "best_score (store ptr p g) = best_score g" "bdigs (store ptr p g) = bdigs g"
  "f (store ptr p g) = f g" "restart (store ptr p g) = restart g"
  "frame (store ptr p g) = frame g"
  by (cases ptr; simp)+

lemma deref_store [simp]: "deref ptr (store ptr p g) = p"
  by (cases ptr) simp_all

lemma pipe_wrap_score: "score (pipe_wrap ptr r g) = score g + 1"
  by (simp add: pipe_wrap_def Let_def)

lemma pipe_wrap_sdigs:
  "sdigs (pipe_wrap ptr r g) =
     (if sdigs g = 1 \<and> score g + 1 > 9 then 2
      else if sdigs g = 2 \<and> score g + 1 > 99 then 3 else sdigs g)"
  by (simp add: pipe_wrap_def Let_def)

lemma pipe_wrap_frame:
  "best_score (pipe_wrap ptr r g) = best_score g" "bdigs (pipe_wrap ptr r g) = bdigs g"
  "f (pipe_wrap ptr r g) = f g" "restart (pipe_wrap ptr r g) = restart g"
  by (simp_all add: pipe_wrap_def Let_def)

lemma pipe_refresh_score:
  "score (pipe_refresh ptr r g) =
     (if center (deref ptr g) + PIPE_RADIUS < 0 then score g + 1 else score g)"
  by (simp add: pipe_refresh_def Let_def pipe_wrap_score)

lemma pipe_refresh_sdigs:
  "sdigs (pipe_refresh ptr r g) =
     (if center (deref ptr g) + PIPE_RADIUS < 0 then sdigs (pipe_wrap ptr r g) else sdigs g)"
  by (simp add: pipe_refresh_def Let_def)

lemma pipe_refresh_frame:
  "best_score (pipe_refresh ptr r g) = best_score g" "bdigs (pipe_refresh ptr r g) = bdigs g"
  "f (pipe_refresh ptr r g) = f g" "restart (pipe_refresh ptr r g) = restart g"
  by (simp_all add: pipe_refresh_def Let_def pipe_wrap_frame)

lemma pipe_refresh_sdigs_range:
  "sdigs g \<in> {1, 2, 3} \<Longrightarrow> sdigs (pipe_refresh ptr r g) \<in> {1, 2, 3}"
  by (auto simp: pipe_refresh_sdigs pipe_wrap_sdigs)

text \<open>
  C6. Within one call of \<^verbatim>\<open>pipe_refresh\<close> that wraps the pipe, a score going from 9
  to 10 takes \<open>sdigs\<close> from 1 to 2, and a score going from 99 to 100 takes it from 2 to
  3; no call takes \<open>sdigs\<close> beyond 3, whatever the score.
\<close>

theorem digit_width_upgrade:
  "(center (deref ptr g) + PIPE_RADIUS < 0 \<and> score g = 9 \<and> sdigs g = 1 \<longrightarrow>
      score (pipe_refresh ptr r g) = 10 \<and> sdigs (pipe_refresh ptr r g) = 2) \<and>
   (center (deref ptr g) + PIPE_RADIUS < 0 \<and> score g = 99 \<and> sdigs g = 2 \<longrightarrow>
      score (pipe_refresh ptr r g) = 100 \<and> sdigs (pipe_refresh ptr r g) = 3) \<and>
   (sdigs g = 3 \<longrightarrow> sdigs (pipe_refresh ptr r g) = 3) \<and>
   sdigs (pipe_refresh ptr r g) \<le> max 3 (sdigs g)"
  by (simp add: pipe_refresh_score pipe_refresh_sdigs pipe_wrap_sdigs)

theorem digit_width_upgrade_witness:
  "center (deref Addr_p1 ((init_game \<lparr>h0 = 12, t = 0\<rparr>)
      \<lparr>score := 9, p1 := \<lparr>opening_height = 1 / 2, center = - 4\<rparr>\<rparr>)) + PIPE_RADIUS < 0 \<and>
   score (pipe_refresh Addr_p1 0 ((init_game \<lparr>h0 = 12, t = 0\<rparr>)
      \<lparr>score := 9, p1 := \<lparr>opening_height = 1 / 2, center = - 4\<rparr>\<rparr>)) = 10 \<and>
   sdigs (pipe_refresh Addr_p1 0 ((init_game \<lparr>h0 = 12, t = 0\<rparr>)
      \<lparr>score := 9, p1 := \<lparr>opening_height = 1 / 2, center = - 4\<rparr>\<rparr>)) = 2 \<and>
   center (deref Addr_p2 ((init_game \<lparr>h0 = 12, t = 0\<rparr>)
      \<lparr>score := 99, sdigs := 2, p2 := \<lparr>opening_height = 1 / 2, center = - 4\<rparr>\<rparr>)) + PIPE_RADIUS < 0 \<and>
   score (pipe_refresh Addr_p2 0 ((init_game \<lparr>h0 = 12, t = 0\<rparr>)
      \<lparr>score := 99, sdigs := 2, p2 := \<lparr>opening_height = 1 / 2, center = - 4\<rparr>\<rparr>)) = 100 \<and>
   sdigs (pipe_refresh Addr_p2 0 ((init_game \<lparr>h0 = 12, t = 0\<rparr>)
      \<lparr>score := 99, sdigs := 2, p2 := \<lparr>opening_height = 1 / 2, center = - 4\<rparr>\<rparr>)) = 3"
  using digit_width_upgrade [of Addr_p1 "(init_game \<lparr>h0 = 12, t = 0\<rparr>)
      \<lparr>score := 9, p1 := \<lparr>opening_height = 1 / 2, center = - 4\<rparr>\<rparr>" 0]
    digit_width_upgrade [of Addr_p2 "(init_game \<lparr>h0 = 12, t = 0\<rparr>)
      \<lparr>score := 99, sdigs := 2, p2 := \<lparr>opening_height = 1 / 2, center = - 4\<rparr>\<rparr>" 0]
  by (simp add: init_game_def PIPE_RADIUS_def)

subsection \<open>The failure screen and the best score\<close>

lemma failure_screen_quit: "k mod 256 = 113 \<Longrightarrow> failure_screen k g = Exit 0 g"
  by (simp add: failure_screen_def)

lemma failure_screen_other:
  assumes "k mod 256 \<noteq> 113"
  shows "\<exists>g'. failure_screen k g = Return 1 g' \<and>
           best_score g' = max (score g) (best_score g) \<and>
           score g' = 0 \<and> sdigs g' = 1 \<and> bdigs g \<le> bdigs g' \<and>
           (bdigs g \<in> {1, 2, 3} \<longrightarrow> bdigs g' \<in> {1, 2, 3})"
  using assms by (auto simp: failure_screen_def Let_def)

lemma failure_screen_Exit: "failure_screen k g = Exit c g' \<Longrightarrow> g' = g \<and> c = 0"
  by (auto simp: failure_screen_def Let_def split: if_splits)

lemma draw_flappy_Exit: "draw_flappy b k g = Exit c g' \<Longrightarrow> g' = g \<and> c = 0"
  by (auto simp: draw_flappy_def split: flappy_branch.splits dest: failure_screen_Exit)

lemma restart_block_frame:
  "best_score (restart_block ra rb g) = best_score g" "bdigs (restart_block ra rb g) = bdigs g"
  "sdigs (restart_block ra rb g) = sdigs g" "score (restart_block ra rb g) = score g"
  by (simp_all add: restart_block_def)

lemma main_iteration_eq:
  assumes "g1 = (if restart g then restart_block (rand_p1_init inp) (rand_p2_init inp) g else g)"
    and "g2 = (if main_ch inp = KEY_UP then g1\<lparr>f := boost (f g1)\<rparr>
               else g1\<lparr>f := (f g1)\<lparr>t := t (f g1) + 1\<rparr>\<rparr>)"
    and "g4 = pipe_refresh Addr_p2 (rand_p2 inp) (pipe_refresh Addr_p1 (rand_p1 inp) g2)"
  shows "main_iteration inp g =
     (if main_ch inp = 113 then Exited 0 g1
      else case draw_flappy (f g4) (failure_ch inp) g4 of
             Exit c g5 \<Rightarrow> Exited c g5
           | Return v g5 \<Rightarrow>
               if v \<noteq> 0 then Continue (g5\<lparr>restart := True\<rparr>)
               else Continue (g5\<lparr>frame := frame g5 + 1\<rparr>))"
  by (simp only: main_iteration_def Let_def assms)

lemma main_iteration_Exited:
  assumes "main_iteration inp g = Exited c g'"
  shows "best_score g' = best_score g \<and> c = 0"
proof -
  define g1 where "g1 = (if restart g then restart_block (rand_p1_init inp) (rand_p2_init inp) g else g)"
  define g2 where "g2 = (if main_ch inp = KEY_UP then g1\<lparr>f := boost (f g1)\<rparr>
                     else g1\<lparr>f := (f g1)\<lparr>t := t (f g1) + 1\<rparr>\<rparr>)"
  define g4 where "g4 = pipe_refresh Addr_p2 (rand_p2 inp) (pipe_refresh Addr_p1 (rand_p1 inp) g2)"
  have b1: "best_score g1 = best_score g" by (simp add: g1_def restart_block_frame)
  have b4: "best_score g4 = best_score g"
    by (simp add: g4_def g2_def pipe_refresh_frame b1)
  note m = main_iteration_eq [OF g1_def g2_def g4_def]
  show ?thesis
  proof (cases "main_ch inp = 113")
    case True
    with assms m b1 show ?thesis by simp
  next
    case False
    show ?thesis
    proof (cases "draw_flappy (f g4) (failure_ch inp) g4")
      case (Exit c' g5)
      with assms m False have e: "c = c'" "g' = g5" by simp_all
      from draw_flappy_Exit [OF Exit] e b4 show ?thesis by simp
    next
      case (Return v g5)
      with assms m False show ?thesis by (simp split: if_splits)
    qed
  qed
qed

lemma draw_flappy_Return:
  assumes "draw_flappy b k g = Return v g'"
  shows "(v = 0 \<and> g' = g) \<or>
         (v = 1 \<and> score g' = 0 \<and> sdigs g' = 1 \<and> bdigs g \<le> bdigs g' \<and>
          (bdigs g \<in> {1, 2, 3} \<longrightarrow> bdigs g' \<in> {1, 2, 3}))"
proof (cases "k mod 256 = 113")
  case True
  with assms show ?thesis
    by (auto simp: draw_flappy_def failure_screen_quit split: flappy_branch.splits)
next
  case False
  from failure_screen_other [OF False, of g] assms show ?thesis
    by (auto simp: draw_flappy_def split: flappy_branch.splits)
qed

lemma main_iteration_Continue:
  assumes "main_iteration inp g = Continue g'"
  shows "bdigs g \<le> bdigs g' \<and>
         (bdigs g \<in> {1, 2, 3} \<longrightarrow> bdigs g' \<in> {1, 2, 3}) \<and>
         (sdigs g \<in> {1, 2, 3} \<longrightarrow> sdigs g' \<in> {1, 2, 3}) \<and>
         (restart g' \<longrightarrow> sdigs g' = 1 \<and> score g' = 0) \<and>
         (\<not> restart g' \<longrightarrow> best_score g' = best_score g)"
proof -
  define g1 where "g1 = (if restart g then restart_block (rand_p1_init inp) (rand_p2_init inp) g else g)"
  define g2 where "g2 = (if main_ch inp = KEY_UP then g1\<lparr>f := boost (f g1)\<rparr>
                     else g1\<lparr>f := (f g1)\<lparr>t := t (f g1) + 1\<rparr>\<rparr>)"
  define g4 where "g4 = pipe_refresh Addr_p2 (rand_p2 inp) (pipe_refresh Addr_p1 (rand_p1 inp) g2)"
  note m = main_iteration_eq [OF g1_def g2_def g4_def]
  have k: "main_ch inp \<noteq> 113" using assms m by auto
  have b1: "bdigs g1 = bdigs g" "\<not> restart g1" "sdigs g1 = sdigs g"
    by (simp_all add: g1_def restart_block_def)
  have b4: "bdigs g4 = bdigs g" and r4: "\<not> restart g4"
    using b1 by (simp_all add: g4_def g2_def pipe_refresh_frame)
  have bs4: "best_score g4 = best_score g"
    by (simp add: g4_def g2_def g1_def pipe_refresh_frame restart_block_frame)
  have s4: "sdigs g \<in> {1, 2, 3} \<longrightarrow> sdigs g4 \<in> {1, 2, 3}"
  proof
    assume "sdigs g \<in> {1, 2, 3}"
    then have "sdigs g2 \<in> {1, 2, 3}" using b1 by (simp add: g2_def)
    then show "sdigs g4 \<in> {1, 2, 3}" unfolding g4_def by (intro pipe_refresh_sdigs_range)
  qed
  show ?thesis
  proof (cases "draw_flappy (f g4) (failure_ch inp) g4")
    case (Exit c g5)
    with assms m k show ?thesis by simp
  next
    case (Return v g5)
    from draw_flappy_Return [OF Return]
    consider "v = 0" "g5 = g4"
      | "v = 1" "score g5 = 0" "sdigs g5 = 1" "bdigs g4 \<le> bdigs g5"
        "bdigs g4 \<in> {1, 2, 3} \<longrightarrow> bdigs g5 \<in> {1, 2, 3}"
      by blast
    then show ?thesis
    proof cases
      case 1
      with assms m k Return have "g' = g4\<lparr>frame := frame g4 + 1\<rparr>" by simp
      then show ?thesis using b4 r4 s4 bs4 by simp
    next
      case 2
      with assms m k Return have "g' = g5\<lparr>restart := True\<rparr>" by simp
      then show ?thesis using 2 b4 by simp
    qed
  qed
qed

text \<open>
  C7. On the failure screen the key \<^verbatim>\<open>'q'\<close> ends the process and leaves the whole
  state, \<open>best_score\<close> included, as it was, also when \<open>score > best_score\<close>; any other
  key stores the larger of \<open>score\<close> and \<open>best_score\<close> into \<open>best_score\<close> and returns 1.
  No iteration of the main loop that ends the process changes \<open>best_score\<close>, and neither
  does an iteration that goes on without a restart: \<open>best_score\<close> changes only through
  a key other than \<^verbatim>\<open>'q'\<close> on the failure screen.
\<close>

theorem quit_keeps_best_score:
  "failure_screen 113 g = Exit 0 g \<and>
   (k mod 256 \<noteq> 113 \<longrightarrow>
      (\<exists>g'. failure_screen k g = Return 1 g' \<and> best_score g' = max (score g) (best_score g))) \<and>
   (main_iteration inp g = Exited c g'' \<longrightarrow> best_score g'' = best_score g) \<and>
   (main_iteration inp g = Continue g'' \<and> \<not> restart g'' \<longrightarrow> best_score g'' = best_score g)"
proof (intro conjI impI)
  show "failure_screen 113 g = Exit 0 g" by (simp add: failure_screen_def)
next
  assume "k mod 256 \<noteq> 113"
  from failure_screen_other [OF this, of g]
  show "\<exists>g'. failure_screen k g = Return 1 g' \<and> best_score g' = max (score g) (best_score g)"
    by blast
next
  assume "main_iteration inp g = Exited c g''"
  then show "best_score g'' = best_score g" by (simp add: main_iteration_Exited)
next
  assume "main_iteration inp g = Continue g'' \<and> \<not> restart g''"
  then show "best_score g'' = best_score g" using main_iteration_Continue [of inp g g''] by blast
qed

theorem quit_keeps_best_score_witness:
  "score ((init_game \<lparr>h0 = 12, t = 0\<rparr>)\<lparr>score := 5, best_score := 3\<rparr>) >
     best_score ((init_game \<lparr>h0 = 12, t = 0\<rparr>)\<lparr>score := 5, best_score := 3\<rparr>) \<and>
   failure_screen 113 ((init_game \<lparr>h0 = 12, t = 0\<rparr>)\<lparr>score := 5, best_score := 3\<rparr>) =
     Exit 0 ((init_game \<lparr>h0 = 12, t = 0\<rparr>)\<lparr>score := 5, best_score := 3\<rparr>) \<and>
   (10::int) mod 256 \<noteq> 113 \<and>
   (\<exists>g'. failure_screen 10 ((init_game \<lparr>h0 = 12, t = 0\<rparr>)\<lparr>score := 5, best_score := 3\<rparr>) =
            Return 1 g' \<and> best_score g' = 5)"
  using quit_keeps_best_score [of "(init_game \<lparr>h0 = 12, t = 0\<rparr>)\<lparr>score := 5, best_score := 3\<rparr>" 10]
  by (simp add: init_game_def)

subsection \<open>Reachable states\<close>

lemma reachable_digits:
  "reachable g \<Longrightarrow> sdigs g \<in> {1, 2, 3} \<and> bdigs g \<in> {1, 2, 3} \<and> (restart g \<longrightarrow> sdigs g = 1)"
proof (induction rule: reachable.induct)
  case (start b)
  show ?case by (simp add: init_game_def)
next
  case (frame g inp g')
  from main_iteration_Continue [OF frame.hyps(2)] frame.IH show ?case by blast
qed

text \<open>
  C10. In every reachable state \<open>sdigs\<close> and \<open>bdigs\<close> are 1, 2 or 3, however large
  the scores are, and \<open>sdigs\<close> is 1 whenever a restart is pending. From a reachable
  state, no iteration decreases \<open>bdigs\<close>; inside an iteration, \<^verbatim>\<open>pipe_refresh\<close> keeps
  \<open>sdigs\<close> in range and leaves \<open>bdigs\<close> alone, and a failure screen that returns sets
  \<open>sdigs\<close> to 1 and keeps \<open>bdigs\<close> in range without decreasing it.
\<close>

theorem digit_counters_invariant:
  "reachable g \<Longrightarrow>
     sdigs g \<in> {1, 2, 3} \<and> bdigs g \<in> {1, 2, 3} \<and> (restart g \<longrightarrow> sdigs g = 1) \<and>
     (\<forall>inp g'. main_iteration inp g = Continue g' \<longrightarrow>
        bdigs g \<le> bdigs g' \<and> (restart g' \<longrightarrow> sdigs g' = 1)) \<and>
     (\<forall>ptr r. sdigs (pipe_refresh ptr r g) \<in> {1, 2, 3} \<and>
        bdigs (pipe_refresh ptr r g) = bdigs g) \<and>
     (\<forall>k g'. failure_screen k g = Return 1 g' \<longrightarrow>
        sdigs g' = 1 \<and> bdigs g' \<in> {1, 2, 3} \<and> bdigs g \<le> bdigs g')"
proof -
  assume r: "reachable g"
  note d = reachable_digits [OF r]
  have a: "bdigs g \<le> bdigs g' \<and> (restart g' \<longrightarrow> sdigs g' = 1)"
    if "main_iteration inp g = Continue g'" for inp g'
    using main_iteration_Continue [OF that] by blast
  have b: "sdigs (pipe_refresh ptr r g) \<in> {1, 2, 3} \<and> bdigs (pipe_refresh ptr r g) = bdigs g"
    for ptr r
    using d pipe_refresh_sdigs_range [of g ptr r] by (simp add: pipe_refresh_frame)
  have c: "sdigs g' = 1 \<and> bdigs g' \<in> {1, 2, 3} \<and> bdigs g \<le> bdigs g'"
    if "failure_screen k g = Return 1 g'" for k g'
  proof (cases "k mod 256 = 113")
    case True
    with that show ?thesis by (simp add: failure_screen_quit)
  next
    case False
    from failure_screen_other [OF False, of g] that d show ?thesis by auto
  qed
  from d a b c show ?thesis by blast
qed

theorem digit_counters_invariant_witness:
  "reachable (init_game \<lparr>h0 = 0, t = 0\<rparr>) \<and>
   sdigs (init_game \<lparr>h0 = 0, t = 0\<rparr>) \<in> {1, 2, 3} \<and>
   bdigs (init_game \<lparr>h0 = 0, t = 0\<rparr>) \<in> {1, 2, 3} \<and>
   main_iteration
     \<lparr>main_ch = - 1, failure_ch = 10, rand_p1_init = 0, rand_p2_init = 0, rand_p1 = 0, rand_p2 = 0\<rparr>
     (init_game \<lparr>h0 = 0, t = 0\<rparr>) =
   Continue \<lparr>frame = 1, score = 0, sdigs = 1, best_score = 0, bdigs = 1,
     p1 = \<lparr>opening_height = 1 / 4, center = 93\<rparr>, p2 = \<lparr>opening_height = 1 / 4, center = 137\<rparr>,
     f = \<lparr>h0 = 12, t = 1\<rparr>, restart = False\<rparr> \<and>
   bdigs (init_game \<lparr>h0 = 0, t = 0\<rparr>) \<le>
   bdigs \<lparr>frame = 1, score = 0, sdigs = 1, best_score = 0, bdigs = 1,
     p1 = \<lparr>opening_height = 1 / 4, center = 93\<rparr>, p2 = \<lparr>opening_height = 1 / 4, center = 137\<rparr>,
     f = \<lparr>h0 = 12, t = 1\<rparr>, restart = False\<rparr>"
proof -
  let ?g = "init_game \<lparr>h0 = 0, t = 0\<rparr>"
  let ?inp = "\<lparr>main_ch = - 1, failure_ch = 10, rand_p1_init = 0, rand_p2_init = 0,
               rand_p1 = 0, rand_p2 = 0\<rparr>"
  let ?g1 = "\<lparr>frame = 0, score = 0, sdigs = 1, best_score = 0, bdigs = 1,
     p1 = \<lparr>opening_height = 1 / 4, center = 94\<rparr>, p2 = \<lparr>opening_height = 1 / 4, center = 138\<rparr>,
     f = \<lparr>h0 = 12, t = 0\<rparr>, restart = False\<rparr>"
  let ?g2 = "\<lparr>frame = 0, score = 0, sdigs = 1, best_score = 0, bdigs = 1,
     p1 = \<lparr>opening_height = 1 / 4, center = 94\<rparr>, p2 = \<lparr>opening_height = 1 / 4, center = 138\<rparr>,
     f = \<lparr>h0 = 12, t = 1\<rparr>, restart = False\<rparr>"
  let ?g4 = "\<lparr>frame = 0, score = 0, sdigs = 1, best_score = 0, bdigs = 1,
     p1 = \<lparr>opening_height = 1 / 4, center = 93\<rparr>, p2 = \<lparr>opening_height = 1 / 4, center = 137\<rparr>,
     f = \<lparr>h0 = 12, t = 1\<rparr>, restart = False\<rparr>"
  have r: "reachable ?g" by (rule reachable.start)
  have s1: "?g1 = (if restart ?g then restart_block (rand_p1_init ?inp) (rand_p2_init ?inp) ?g
                   else ?g)"
    by (simp add: init_game_def game_eval)
  have s2: "?g2 = (if main_ch ?inp = KEY_UP then ?g1\<lparr>f := boost (f ?g1)\<rparr>
                   else ?g1\<lparr>f := (f ?g1)\<lparr>t := t (f ?g1) + 1\<rparr>\<rparr>)"
    by (simp add: KEY_UP_def)
  have s4: "?g4 = pipe_refresh Addr_p2 (rand_p2 ?inp) (pipe_refresh Addr_p1 (rand_p1 ?inp) ?g2)"
    by (simp add: pipe_refresh_def PIPE_RADIUS_def)
  have p: "get_flappy_position \<lparr>h0 = 12, t = 1\<rparr> = 11" by (simp add: game_eval)
  have c: "crashed_into_pipe \<lparr>h0 = 12, t = 1\<rparr> \<lparr>opening_height = 1 / 4, center = 93\<rparr> = 0"
    "crashed_into_pipe \<lparr>h0 = 12, t = 1\<rparr> \<lparr>opening_height = 1 / 4, center = 137\<rparr> = 0"
    by (simp_all add: crashed_into_pipe_def PIPE_RADIUS_def FLAPPY_COL_def)
  have d: "draw_flappy (f ?g4) (failure_ch ?inp) ?g4 = Return 0 ?g4"
    by (simp add: draw_flappy_def draw_flappy_branch_def p c NUM_ROWS_def)
  have m: "main_iteration ?inp ?g = Continue (?g4\<lparr>frame := frame ?g4 + 1\<rparr>)"
    by (simp only: main_iteration_eq [OF s1 s2 s4] d) simp
  then have m': "main_iteration ?inp ?g =
     Continue \<lparr>frame = 1, score = 0, sdigs = 1, best_score = 0, bdigs = 1,
       p1 = \<lparr>opening_height = 1 / 4, center = 93\<rparr>, p2 = \<lparr>opening_height = 1 / 4, center = 137\<rparr>,
       f = \<lparr>h0 = 12, t = 1\<rparr>, restart = False\<rparr>"
    by simp
  from digit_counters_invariant [OF r] r m' show ?thesis by blast
qed

subsection \<open>The first columns of the pipes\<close>

lemma restart_block_centers:
  "center (p1 (restart_block ra rb g)) = 94" "center (p2 (restart_block ra rb g)) = 138"
proof -
  show "center (p1 (restart_block ra rb g)) = 94" "center (p2 (restart_block ra rb g)) = 138"
    by (simp_all add: restart_block_def NUM_COLS_def fl_eval)
qed

text \<open>
  C8, as amended. At the start of the game (\<open>restart\<close> is set in the first state) and on
  every restart, the block \<^verbatim>\<open>if (restart)\<close> puts the two pipes at the columns
  \<open>94 = \<lfloor>1.2 * (NUM_COLS - 1)\<rfloor>\<close> and \<open>138 = \<lfloor>1.75 * (NUM_COLS - 1)\<rfloor>\<close>: 1.2 and
  1.75 times the last column index, not the width, with the fraction dropped. Both are off
  the screen to the right (\<open>\<ge> NUM_COLS\<close>). The block also clears the flag and puts the
  bird at row \<open>NUM_ROWS / 2\<close> with no tick elapsed.
\<close>

theorem restart_pipe_columns:
  "center (p1 (restart_block ra rb g)) = \<lfloor>(6 / 5 :: rat) * of_int (NUM_COLS - 1)\<rfloor> \<and>
   center (p2 (restart_block ra rb g)) = \<lfloor>(7 / 4 :: rat) * of_int (NUM_COLS - 1)\<rfloor> \<and>
   center (p1 (restart_block ra rb g)) = 94 \<and>
   center (p2 (restart_block ra rb g)) = 138 \<and>
   NUM_COLS \<le> center (p1 (restart_block ra rb g)) \<and>
   NUM_COLS \<le> center (p2 (restart_block ra rb g)) \<and>
   f (restart_block ra rb g) = \<lparr>h0 = 12, t = 0\<rparr> \<and>
   \<not> restart (restart_block ra rb g) \<and>
   restart (init_game b)"
proof -
  have "f (restart_block ra rb g) = \<lparr>h0 = 12, t = 0\<rparr>"
    by (simp add: restart_block_def c_div_def NUM_ROWS_def)
  moreover have "\<not> restart (restart_block ra rb g)" by (simp add: restart_block_def)
  moreover have "restart (init_game b)" by (simp add: init_game_def)
  moreover have "\<lfloor>(6 / 5 :: rat) * of_int (NUM_COLS - 1)\<rfloor> = 94"
    by (simp add: NUM_COLS_def floor_rat_numeral)
  moreover have "\<lfloor>(7 / 4 :: rat) * of_int (NUM_COLS - 1)\<rfloor> = 138"
    by (simp add: NUM_COLS_def floor_rat_numeral)
  moreover have "NUM_COLS \<le> 94" by (simp add: NUM_COLS_def)
  ultimately show ?thesis by (simp only: restart_block_centers) simp
qed

text \<open>
  The claim as stated fails: the columns are not 1.2 and 1.75 times the playfield width
  \<open>NUM_COLS\<close>, which would be 96 and 140.
\<close>

theorem restart_pipe_columns_counterexample:
  "center (p1 (restart_block 0 0 (init_game \<lparr>h0 = 0, t = 0\<rparr>))) = 94 \<and>
   center (p2 (restart_block 0 0 (init_game \<lparr>h0 = 0, t = 0\<rparr>))) = 138 \<and>
   (6 / 5 :: rat) * of_int NUM_COLS = 96 \<and> (7 / 4 :: rat) * of_int NUM_COLS = 140 \<and>
   of_int (center (p1 (restart_block 0 0 (init_game \<lparr>h0 = 0, t = 0\<rparr>)))) \<noteq>
     (6 / 5 :: rat) * of_int NUM_COLS \<and>
   of_int (center (p2 (restart_block 0 0 (init_game \<lparr>h0 = 0, t = 0\<rparr>)))) \<noteq>
     (7 / 4 :: rat) * of_int NUM_COLS"
  by (simp add: restart_block_centers NUM_COLS_def)

subsection \<open>Recycling a pipe\<close>

lemma rand_opening_range:
  assumes "0 \<le> r" "r \<le> INT_MAX"
  shows "1 / 4 \<le> rand_opening r \<and> rand_opening r \<le> 3 / 4"
proof -
  have m: "fl32 (of_int INT_MAX) = 2147483648" by (simp add: INT_MAX_def fl32_values)
  have "(of_int r :: rat) \<le> 2147483647" using assms(2) by (simp add: INT_MAX_def)
  from fl32_mono [OF this] have hi: "fl32 (of_int r) \<le> 2147483648" by (simp add: fl32_values)
  have "(0 :: rat) \<le> of_int r" using assms(1) by simp
  from fl32_mono [OF this] have lo: "0 \<le> fl32 (of_int r)" by (simp add: fl_zero)
  define u where "u = fl32 (fl32 (of_int r) / fl32 (of_int INT_MAX))"
  have "0 \<le> fl32 (of_int r) / fl32 (of_int INT_MAX)" using lo by (simp add: m)
  from fl32_mono [OF this] have u0: "0 \<le> u" by (simp add: u_def fl_zero)
  have "fl32 (of_int r) / fl32 (of_int INT_MAX) \<le> 1" using hi by (simp add: m)
  from fl32_mono [OF this] have u1: "u \<le> 1" by (simp add: u_def fl32_values)
  define v where "v = fl64 (u * fl64 (1 / 2))"
  have "0 \<le> u * fl64 (1 / 2)" using u0 by (simp add: fl64_values)
  from fl64_mono [OF this] have v0: "0 \<le> v" by (simp add: v_def fl_zero)
  have "u * fl64 (1 / 2) \<le> 1 / 2" using u1 by (simp add: fl64_values)
  from fl64_mono [OF this] have v1: "v \<le> 1 / 2" by (simp add: v_def fl64_values)
  define w where "w = fl64 (v + fl64 (1 / 4))"
  have "1 / 4 \<le> v + fl64 (1 / 4)" using v0 by (simp add: fl64_values)
  from fl64_mono [OF this] have w0: "1 / 4 \<le> w" by (simp add: w_def fl64_values)
  have "v + fl64 (1 / 4) \<le> 3 / 4" using v1 by (simp add: fl64_values)
  from fl64_mono [OF this] have w1: "w \<le> 3 / 4" by (simp add: w_def fl64_values)
  have r: "rand_opening r = fl32 w" by (simp add: rand_opening_def w_def v_def u_def)
  from fl32_mono [OF w0] fl32_mono [OF w1] show ?thesis by (simp add: r fl32_values)
qed

lemma deref_pipe_refresh_wrap:
  assumes "center (deref ptr g) + PIPE_RADIUS < 0"
  shows "deref ptr (pipe_refresh ptr r g) =
           \<lparr>opening_height = rand_opening r, center = NUM_COLS + PIPE_RADIUS - 1\<rparr>"
  using assms by (cases ptr) (simp_all add: pipe_refresh_def pipe_wrap_def Let_def)

text \<open>
  C3, as amended. A pipe whose centre is \<open>- PIPE_RADIUS - 1\<close> before \<^verbatim>\<open>pipe_refresh\<close>
  has its centre at \<open>NUM_COLS + PIPE_RADIUS - 1\<close> after it, an opening height drawn again
  within the closed interval \<open>[0.25, 0.75]\<close> (for every value \<open>0 \<le> r \<le> INT_MAX\<close> that
  \<^verbatim>\<open>rand\<close> may return), and the score is larger by exactly 1.
\<close>

theorem pipe_recycling:
  assumes "center (deref ptr g) = - PIPE_RADIUS - 1" "0 \<le> r" "r \<le> INT_MAX"
  shows "center (deref ptr (pipe_refresh ptr r g)) = NUM_COLS + PIPE_RADIUS - 1 \<and>
         1 / 4 \<le> opening_height (deref ptr (pipe_refresh ptr r g)) \<and>
         opening_height (deref ptr (pipe_refresh ptr r g)) \<le> 3 / 4 \<and>
         score (pipe_refresh ptr r g) = score g + 1"
proof -
  have w: "center (deref ptr g) + PIPE_RADIUS < 0" using assms(1) by simp
  from deref_pipe_refresh_wrap [OF w] rand_opening_range [OF assms(2,3)] w
  show ?thesis by (simp add: pipe_refresh_score)
qed

theorem pipe_recycling_witness:
  "center (deref Addr_p1 ((init_game \<lparr>h0 = 12, t = 0\<rparr>)
      \<lparr>p1 := \<lparr>opening_height = 1 / 2, center = - 4\<rparr>\<rparr>)) = - PIPE_RADIUS - 1 \<and>
   (0::int) \<le> 1000 \<and> 1000 \<le> INT_MAX \<and>
   center (deref Addr_p1 (pipe_refresh Addr_p1 1000 ((init_game \<lparr>h0 = 12, t = 0\<rparr>)
      \<lparr>p1 := \<lparr>opening_height = 1 / 2, center = - 4\<rparr>\<rparr>))) = 82 \<and>
   score (pipe_refresh Addr_p1 1000 ((init_game \<lparr>h0 = 12, t = 0\<rparr>)
      \<lparr>p1 := \<lparr>opening_height = 1 / 2, center = - 4\<rparr>\<rparr>)) = 1"
proof -
  have a: "center (deref Addr_p1 ((init_game \<lparr>h0 = 12, t = 0\<rparr>)
      \<lparr>p1 := \<lparr>opening_height = 1 / 2, center = - 4\<rparr>\<rparr>)) = - PIPE_RADIUS - 1"
    by (simp add: PIPE_RADIUS_def)
  have b: "(0::int) \<le> 1000" "1000 \<le> INT_MAX" by (simp_all add: INT_MAX_def)
  from pipe_recycling [OF a b] a b show ?thesis
    by (simp add: NUM_COLS_def PIPE_RADIUS_def init_game_def)
qed

text \<open>
  The claim as stated fails at the upper end: when \<^verbatim>\<open>rand\<close> returns \<open>INT_MAX\<close> (the
  \<^verbatim>\<open>RAND_MAX\<close> of the GNU C library), the quotient is 1 and the opening height is
  exactly 0.75, outside \<open>[0.25, 0.75)\<close>.
\<close>

theorem pipe_recycling_counterexample:
  "center (deref Addr_p1 ((init_game \<lparr>h0 = 12, t = 0\<rparr>)
      \<lparr>p1 := \<lparr>opening_height = 1 / 2, center = - 4\<rparr>\<rparr>)) = - PIPE_RADIUS - 1 \<and>
   \<not> opening_height (deref Addr_p1 (pipe_refresh Addr_p1 2147483647
        ((init_game \<lparr>h0 = 12, t = 0\<rparr>)\<lparr>p1 := \<lparr>opening_height = 1 / 2, center = - 4\<rparr>\<rparr>))) < 3 / 4"
proof -
  have a: "center (deref Addr_p1 ((init_game \<lparr>h0 = 12, t = 0\<rparr>)
      \<lparr>p1 := \<lparr>opening_height = 1 / 2, center = - 4\<rparr>\<rparr>)) + PIPE_RADIUS < 0"
    by (simp add: PIPE_RADIUS_def)
  have b: "rand_opening 2147483647 = 3 / 4" by (simp add: game_eval)
  have "opening_height (deref Addr_p1 (pipe_refresh Addr_p1 2147483647
        ((init_game \<lparr>h0 = 12, t = 0\<rparr>)\<lparr>p1 := \<lparr>opening_height = 1 / 2, center = - 4\<rparr>\<rparr>))) = 3 / 4"
    by (simp only: deref_pipe_refresh_wrap [OF a] b vpipe.simps)
  moreover have "center (deref Addr_p1 ((init_game \<lparr>h0 = 12, t = 0\<rparr>)
      \<lparr>p1 := \<lparr>opening_height = 1 / 2, center = - 4\<rparr>\<rparr>)) = - PIPE_RADIUS - 1"
    by (simp add: PIPE_RADIUS_def)
  ultimately show ?thesis by (simp only:) simp
qed

subsection \<open>The boost\<close>

lemma position_at_boost:
  assumes "\<bar>n\<bar> \<le> 2 ^ 24"
  shows "get_flappy_position \<lparr>h0 = n, t = 0\<rparr> = n"
proof -
  have "\<bar>n\<bar> \<le> 2 ^ 53" using assms by simp
  then show ?thesis
    by (simp add: get_flappy_position_def fl_zero fl32_of_int [OF assms] fl64_of_int
        trunc_int_of_int)
qed

lemma boost_keeps_row:
  assumes "\<bar>get_flappy_position b\<bar> \<le> 2 ^ 24"
  shows "h0 (boost b) = get_flappy_position b \<and> t (boost b) = 0 \<and>
         get_flappy_position (boost b) = get_flappy_position b"
  using position_at_boost [OF assms] by (simp add: boost_def)

text \<open>The birds that the loop has: a bird that was drawn is on a row from 1 to 22.\<close>

lemma failure_screen_Return: "failure_screen k g = Return v g' \<Longrightarrow> v = 1"
  by (auto simp: failure_screen_def Let_def split: if_splits)

lemma draw_flappy_Return_0:
  assumes "draw_flappy b k g = Return 0 g'"
  shows "1 \<le> get_flappy_position b \<and> get_flappy_position b \<le> NUM_ROWS - 2"
proof (cases "draw_flappy_branch b g")
  case Hit_boundary
  with assms have "failure_screen k g = Return 0 g'" by (simp add: draw_flappy_def)
  from failure_screen_Return [OF this] show ?thesis by simp
next
  case Hit_pipe
  with assms have "failure_screen k g = Return 0 g'" by (simp add: draw_flappy_def)
  from failure_screen_Return [OF this] show ?thesis by simp
next
  case Drawn
  then show ?thesis
    by (auto simp: draw_flappy_branch_def Let_def split: if_splits)
qed

lemma restart_block_bird: "f (restart_block ra rb g) = \<lparr>h0 = 12, t = 0\<rparr>"
  by (simp add: restart_block_def c_div_def NUM_ROWS_def)

lemma position_start: "get_flappy_position \<lparr>h0 = 12, t = 0\<rparr> = 12"
  by (rule position_at_boost) simp

lemma main_iteration_bird:
  assumes "main_iteration inp g = Continue g'" "\<not> restart g'"
  shows "1 \<le> get_flappy_position (f g') \<and> get_flappy_position (f g') \<le> NUM_ROWS - 2 \<and>
         (t (f g') = 0 \<or> (restart g \<and> t (f g') = 1) \<or> (\<not> restart g \<and> t (f g') = t (f g) + 1))"
proof -
  define g1 where "g1 = (if restart g then restart_block (rand_p1_init inp) (rand_p2_init inp) g else g)"
  define g2 where "g2 = (if main_ch inp = KEY_UP then g1\<lparr>f := boost (f g1)\<rparr>
                     else g1\<lparr>f := (f g1)\<lparr>t := t (f g1) + 1\<rparr>\<rparr>)"
  define g4 where "g4 = pipe_refresh Addr_p2 (rand_p2 inp) (pipe_refresh Addr_p1 (rand_p1 inp) g2)"
  note m = main_iteration_eq [OF g1_def g2_def g4_def]
  have k: "main_ch inp \<noteq> 113" using assms(1) m by auto
  have f4: "f g4 = f g2" by (simp add: g4_def pipe_refresh_frame)
  have t1: "(restart g \<and> t (f g1) = 0) \<or> (\<not> restart g \<and> t (f g1) = t (f g))"
    by (simp add: g1_def restart_block_bird)
  have t2: "t (f g2) = 0 \<or> t (f g2) = t (f g1) + 1"
    by (simp add: g2_def boost_def)
  show ?thesis
  proof (cases "draw_flappy (f g4) (failure_ch inp) g4")
    case (Exit c g5)
    with assms(1) m k show ?thesis by simp
  next
    case (Return v g5)
    show ?thesis
    proof (cases "v = 0")
      case True
      with assms(1) m k Return have g': "g' = g5\<lparr>frame := frame g5 + 1\<rparr>" by simp
      from draw_flappy_Return [OF Return] True have "g5 = g4" by simp
      with g' f4 have fg: "f g' = f g2" by simp
      from Return True have "draw_flappy (f g4) (failure_ch inp) g4 = Return 0 g5" by simp
      from draw_flappy_Return_0 [OF this] f4
      have "1 \<le> get_flappy_position (f g2) \<and> get_flappy_position (f g2) \<le> NUM_ROWS - 2"
        by simp
      with fg t1 t2 show ?thesis by auto
    next
      case False
      with assms(1) m k Return have "g' = g5\<lparr>restart := True\<rparr>" by simp
      with assms(2) show ?thesis by simp
    qed
  qed
qed

lemma reachable_bird:
  "reachable g \<Longrightarrow> \<not> restart g \<longrightarrow>
     0 \<le> t (f g) \<and> 1 \<le> get_flappy_position (f g) \<and> get_flappy_position (f g) \<le> NUM_ROWS - 2"
proof (induction rule: reachable.induct)
  case (start b)
  show ?case by (simp add: init_game_def)
next
  case (frame g inp g')
  show ?case
  proof
    assume n: "\<not> restart g'"
    from main_iteration_bird [OF frame.hyps(2) n] frame.IH show
      "0 \<le> t (f g') \<and> 1 \<le> get_flappy_position (f g') \<and>
       get_flappy_position (f g') \<le> NUM_ROWS - 2"
      by auto
  qed
qed

text \<open>The bird that the \<^verbatim>\<open>switch\<close> of \<^verbatim>\<open>main\<close> sees: after the restart block, if it runs.\<close>

lemma reachable_switch_bird:
  assumes "reachable g" "b = f (if restart g then restart_block ra rb g else g)"
  shows "0 \<le> t b \<and> 1 \<le> get_flappy_position b \<and> get_flappy_position b \<le> NUM_ROWS - 2"
proof (cases "restart g")
  case True
  with assms(2) show ?thesis by (simp add: restart_block_bird position_start NUM_ROWS_def)
next
  case False
  with assms(2) reachable_bird [OF assms(1)] show ?thesis by simp
qed

text \<open>The first frame of a game in which no key is pressed, and the state it leads to.\<close>

lemma first_frame:
  "main_iteration
     \<lparr>main_ch = - 1, failure_ch = 10, rand_p1_init = 0, rand_p2_init = 0, rand_p1 = 0, rand_p2 = 0\<rparr>
     (init_game \<lparr>h0 = 0, t = 0\<rparr>) =
   Continue \<lparr>frame = 1, score = 0, sdigs = 1, best_score = 0, bdigs = 1,
     p1 = \<lparr>opening_height = 1 / 4, center = 93\<rparr>, p2 = \<lparr>opening_height = 1 / 4, center = 137\<rparr>,
     f = \<lparr>h0 = 12, t = 1\<rparr>, restart = False\<rparr>"
proof -
  let ?g = "init_game \<lparr>h0 = 0, t = 0\<rparr>"
  let ?inp = "\<lparr>main_ch = - 1, failure_ch = 10, rand_p1_init = 0, rand_p2_init = 0,
               rand_p1 = 0, rand_p2 = 0\<rparr>"
  let ?g1 = "\<lparr>frame = 0, score = 0, sdigs = 1, best_score = 0, bdigs = 1,
     p1 = \<lparr>opening_height = 1 / 4, center = 94\<rparr>, p2 = \<lparr>opening_height = 1 / 4, center = 138\<rparr>,
     f = \<lparr>h0 = 12, t = 0\<rparr>, restart = False\<rparr>"
  let ?g2 = "\<lparr>frame = 0, score = 0, sdigs = 1, best_score = 0, bdigs = 1,
     p1 = \<lparr>opening_height = 1 / 4, center = 94\<rparr>, p2 = \<lparr>opening_height = 1 / 4, center = 138\<rparr>,
     f = \<lparr>h0 = 12, t = 1\<rparr>, restart = False\<rparr>"
  let ?g4 = "\<lparr>frame = 0, score = 0, sdigs = 1, best_score = 0, bdigs = 1,
     p1 = \<lparr>opening_height = 1 / 4, center = 93\<rparr>, p2 = \<lparr>opening_height = 1 / 4, center = 137\<rparr>,
     f = \<lparr>h0 = 12, t = 1\<rparr>, restart = False\<rparr>"
  have s1: "?g1 = (if restart ?g then restart_block (rand_p1_init ?inp) (rand_p2_init ?inp) ?g
                   else ?g)"
    by (simp add: init_game_def game_eval)
  have s2: "?g2 = (if main_ch ?inp = KEY_UP then ?g1\<lparr>f := boost (f ?g1)\<rparr>
                   else ?g1\<lparr>f := (f ?g1)\<lparr>t := t (f ?g1) + 1\<rparr>\<rparr>)"
    by (simp add: KEY_UP_def)
  have s4: "?g4 = pipe_refresh Addr_p2 (rand_p2 ?inp) (pipe_refresh Addr_p1 (rand_p1 ?inp) ?g2)"
    by (simp add: pipe_refresh_def PIPE_RADIUS_def)
  have p: "get_flappy_position \<lparr>h0 = 12, t = 1\<rparr> = 11" by (simp add: game_eval)
  have c: "crashed_into_pipe \<lparr>h0 = 12, t = 1\<rparr> \<lparr>opening_height = 1 / 4, center = 93\<rparr> = 0"
    "crashed_into_pipe \<lparr>h0 = 12, t = 1\<rparr> \<lparr>opening_height = 1 / 4, center = 137\<rparr> = 0"
    by (simp_all add: crashed_into_pipe_def PIPE_RADIUS_def FLAPPY_COL_def)
  have d: "draw_flappy (f ?g4) (failure_ch ?inp) ?g4 = Return 0 ?g4"
    by (simp add: draw_flappy_def draw_flappy_branch_def p c NUM_ROWS_def)
  have "main_iteration ?inp ?g = Continue (?g4\<lparr>frame := frame ?g4 + 1\<rparr>)"
    by (simp only: main_iteration_eq [OF s1 s2 s4] d) simp
  then show ?thesis by simp
qed

text \<open>
  C2. The boost sets \<open>h0\<close> to the computed row and \<open>t\<close> to 0. In every state that the
  game reaches, the bird that the \<^verbatim>\<open>switch\<close> of \<^verbatim>\<open>main\<close> may boost (the bird of the
  state, or the one the restart block has just made) has \<open>t \<ge> 0\<close> and a row from 1 to
  \<open>NUM_ROWS - 2\<close>, and the row computed right after the boost is the row computed right
  before it. The same holds of any bird at all whose row \<open>p\<close> has \<open>\<bar>p\<bar> \<le> 2 ^ 24\<close>,
  which covers every row of the screen.
\<close>

theorem boost_continuity:
  "(reachable g \<and> b = f (if restart g then restart_block ra rb g else g) \<longrightarrow>
      0 \<le> t b \<and> 1 \<le> get_flappy_position b \<and> get_flappy_position b \<le> NUM_ROWS - 2 \<and>
      h0 (boost b) = get_flappy_position b \<and> t (boost b) = 0 \<and>
      get_flappy_position (boost b) = get_flappy_position b) \<and>
   (\<bar>get_flappy_position b'\<bar> \<le> 2 ^ 24 \<longrightarrow>
      h0 (boost b') = get_flappy_position b' \<and> t (boost b') = 0 \<and>
      get_flappy_position (boost b') = get_flappy_position b')"
proof (rule conjI; rule impI)
  assume a: "reachable g \<and> b = f (if restart g then restart_block ra rb g else g)"
  then have r: "0 \<le> t b \<and> 1 \<le> get_flappy_position b \<and> get_flappy_position b \<le> NUM_ROWS - 2"
    using reachable_switch_bird [of g b ra rb] by blast
  then have "\<bar>get_flappy_position b\<bar> \<le> 2 ^ 24" by (simp add: NUM_ROWS_def)
  from boost_keeps_row [OF this] r
  show "0 \<le> t b \<and> 1 \<le> get_flappy_position b \<and> get_flappy_position b \<le> NUM_ROWS - 2 \<and>
      h0 (boost b) = get_flappy_position b \<and> t (boost b) = 0 \<and>
      get_flappy_position (boost b) = get_flappy_position b"
    by blast
next
  assume "\<bar>get_flappy_position b'\<bar> \<le> 2 ^ 24"
  then show "h0 (boost b') = get_flappy_position b' \<and> t (boost b') = 0 \<and>
      get_flappy_position (boost b') = get_flappy_position b'"
    by (rule boost_keeps_row)
qed

theorem boost_continuity_witness:
  "reachable \<lparr>frame = 1, score = 0, sdigs = 1, best_score = 0, bdigs = 1,
     p1 = \<lparr>opening_height = 1 / 4, center = 93\<rparr>, p2 = \<lparr>opening_height = 1 / 4, center = 137\<rparr>,
     f = \<lparr>h0 = 12, t = 1\<rparr>, restart = False\<rparr> \<and>
   get_flappy_position \<lparr>h0 = 12, t = 1\<rparr> = 11 \<and>
   boost \<lparr>h0 = 12, t = 1\<rparr> = \<lparr>h0 = 11, t = 0\<rparr> \<and>
   get_flappy_position (boost \<lparr>h0 = 12, t = 1\<rparr>) = 11 \<and>
   \<bar>get_flappy_position \<lparr>h0 = 12, t = 7\<rparr>\<bar> \<le> 2 ^ 24 \<and>
   get_flappy_position \<lparr>h0 = 12, t = 7\<rparr> = 9 \<and>
   get_flappy_position (boost \<lparr>h0 = 12, t = 7\<rparr>) = 9"
proof -
  let ?g = "\<lparr>frame = 1, score = 0, sdigs = 1, best_score = 0, bdigs = 1,
     p1 = \<lparr>opening_height = 1 / 4, center = 93\<rparr>, p2 = \<lparr>opening_height = 1 / 4, center = 137\<rparr>,
     f = \<lparr>h0 = 12, t = 1\<rparr>, restart = False\<rparr>"
  have r: "reachable ?g" by (rule reachable.frame [OF reachable.start first_frame])
  have e: "\<lparr>h0 = 12, t = 1\<rparr> = f (if restart ?g then restart_block 0 0 ?g else ?g)" by simp
  have a: "get_flappy_position \<lparr>h0 = 12, t = 1\<rparr> = 11" by (simp add: game_eval)
  have c: "get_flappy_position \<lparr>h0 = 12, t = 7\<rparr> = 9" by (simp add: game_eval)
  then have d: "\<bar>get_flappy_position \<lparr>h0 = 12, t = 7\<rparr>\<bar> \<le> 2 ^ 24" by simp
  from boost_continuity [of ?g "\<lparr>h0 = 12, t = 1\<rparr>" 0 0 "\<lparr>h0 = 12, t = 7\<rparr>"] r e a c d
  show ?thesis by (simp add: boost_def)
qed

text \<open>
  The range in the second half of the theorem is needed only for the function on its own:
  beyond \<open>2 ^ 24\<close> the conversion of \<open>h0\<close> to \<^verbatim>\<open>float\<close> rounds, and a bird with
  \<open>h0 = 16777218\<close> and \<open>t = 30\<close>, which no game has, is on row 16777225 before a boost
  and on row 16777224 after it.
\<close>

lemma boost_beyond_float_range:
  "get_flappy_position \<lparr>h0 = 16777218, t = 30\<rparr> = 16777225 \<and>
   get_flappy_position (boost \<lparr>h0 = 16777218, t = 30\<rparr>) = 16777224"
proof -
  have a: "get_flappy_position \<lparr>h0 = 16777218, t = 30\<rparr> = 16777225" by (simp add: game_eval)
  have b: "get_flappy_position (boost \<lparr>h0 = 16777218, t = 30\<rparr>) = 16777224"
    by (simp add: game_eval)
  show ?thesis using a b by simp
qed

subsection \<open>The shape of the trajectory\<close>

lemma half_GRAV_value: "fl64 (fl64 (1 / 2) * GRAV) = 13421773 / 536870912"
  by (simp add: GRAV_value fl_eval)

lemma fl32_GRAV_values:
  "fl32 10 = 10" "fl32 11 = 11"
  "fl32 (GRAV * 10) = 1 / 2"
  "fl32 (1 / 2 + V0) = 0"
  "0 < fl32 (fl32 (GRAV * 11) + V0)"
  by (simp_all add: GRAV_value V0_value fl_eval)

lemma GRAV_nonneg: "0 \<le> GRAV"
  by (simp add: GRAV_value)

lemma descending_iff: "descending b \<longleftrightarrow> 10 < t b"
proof (cases "t b \<le> 10")
  case True
  then have "(of_int (t b) :: rat) \<le> 10" by simp
  from fl32_mono [OF this] have "fl32 (of_int (t b)) \<le> 10" by (simp only: fl32_GRAV_values)
  then have "GRAV * fl32 (of_int (t b)) \<le> GRAV * 10"
    using GRAV_nonneg by (rule mult_left_mono)
  from fl32_mono [OF this] have "fl32 (GRAV * fl32 (of_int (t b))) \<le> 1 / 2"
    by (simp only: fl32_GRAV_values)
  then have "fl32 (GRAV * fl32 (of_int (t b))) + V0 \<le> 1 / 2 + V0" by (rule add_right_mono)
  from fl32_mono [OF this] have "fl32 (fl32 (GRAV * fl32 (of_int (t b))) + V0) \<le> 0"
    by (simp only: fl32_GRAV_values)
  with True show ?thesis by (simp add: descending_def)
next
  case False
  then have "(11 :: rat) \<le> of_int (t b)" by simp
  from fl32_mono [OF this] have "11 \<le> fl32 (of_int (t b))" by (simp only: fl32_GRAV_values)
  then have "GRAV * 11 \<le> GRAV * fl32 (of_int (t b))"
    using GRAV_nonneg by (rule mult_left_mono)
  from fl32_mono [OF this] have "fl32 (GRAV * 11) + V0 \<le> fl32 (GRAV * fl32 (of_int (t b))) + V0"
    by (rule add_right_mono)
  from fl32_mono [OF this] fl32_GRAV_values(5)
  have "0 < fl32 (fl32 (GRAV * fl32 (of_int (t b))) + V0)" by (rule less_le_trans [rotated])
  with False show ?thesis by (simp add: descending_def)
qed

text \<open>
  Within the range below no operation of \<^verbatim>\<open>get_flappy_position\<close> rounds, except the
  last sum: the row is the truncated parabola, with the value \<open>0.5 * GRAV\<close> has.
\<close>

lemma position_exact:
  assumes "\<bar>n\<bar> \<le> 2 ^ 22" "0 \<le> k" "k \<le> 2 ^ 14"
  shows "get_flappy_position \<lparr>h0 = n, t = k\<rparr> =
           trunc_int (fl64 (of_int n - of_int k / 2
                            + 13421773 / 536870912 * of_int k * of_int k))"
proof -
  have a1: "fl32 (of_int n) = of_int n" using assms(1) by (intro fl32_of_int) simp
  have a2: "fl32 (of_int k) = of_int k" using assms(2,3) by (intro fl32_of_int) simp
  have a3: "fl32 (V0 * of_int k) = - (of_int k / 2)"
  proof -
    have "fl32 (V0 * of_int k) = V0 * of_int k"
      by (rule fl32_exact [of _ "- k" "- 1"]) (use assms(2,3) in \<open>simp_all add: V0_value\<close>)
    then show ?thesis by (simp add: V0_value)
  qed
  have a4: "fl32 (of_int n + - (of_int k / 2)) = of_int n - of_int k / 2"
  proof -
    have "fl32 (of_int n + - (of_int k / 2)) = of_int n + - (of_int k / 2)"
      by (rule fl32_exact [of _ "2 * n - k" "- 1"]) (use assms in \<open>simp_all add: field_simps\<close>)
    then show ?thesis by simp
  qed
  have b1: "fl64 (of_int k) = of_int k" using assms(2,3) by (intro fl64_of_int) simp
  have b2: "fl64 (13421773 / 536870912 * of_int k) = 13421773 / 536870912 * of_int k"
    by (rule fl64_exact [of _ "13421773 * k" "- 29"]) (use assms(2,3) in simp_all)
  have kk: "k * k \<le> 2 ^ 14 * 2 ^ 14" using assms(2,3) by (intro mult_mono) simp_all
  have kk0: "0 \<le> k * k" using assms(2) by simp
  have b3: "fl64 (13421773 / 536870912 * of_int k * of_int k) =
          13421773 / 536870912 * of_int k * of_int k"
    by (rule fl64_exact [of _ "13421773 * (k * k)" "- 29"]) (use kk kk0 in simp_all)
  show ?thesis
    by (simp only: get_flappy_position_def flappy.simps half_GRAV_value a1 a2 a3 a4 b1 b2 b3)
qed

lemma parabola_diff:
  "(of_int n - of_int j / 2 + 13421773 / 536870912 * of_int j * of_int j)
     - (of_int n - of_int i / 2 + 13421773 / 536870912 * of_int i * of_int i)
   = (of_int (j - i) :: rat) * (13421773 / 536870912 * of_int (i + j) - 1 / 2)"
  by (simp add: field_simps)

lemma apex_sign:
  fixes x :: rat
  shows "20 \<le> x \<Longrightarrow> 0 \<le> 13421773 / 536870912 * x - 1 / 2"
    and "x \<le> 19 \<Longrightarrow> 13421773 / 536870912 * x - 1 / 2 \<le> 0"
  by linarith+

lemma position_descent:
  assumes "\<bar>n\<bar> \<le> 2 ^ 22" "10 \<le> i" "i \<le> j" "j \<le> 2 ^ 14"
  shows "get_flappy_position \<lparr>h0 = n, t = i\<rparr> \<le> get_flappy_position \<lparr>h0 = n, t = j\<rparr>"
proof -
  have "20 \<le> i + j" using assms(2,3) by simp
  then have "(of_int 20 :: rat) \<le> of_int (i + j)" by (subst of_int_le_iff)
  then have "(20 :: rat) \<le> of_int (i + j)" by (simp del: of_int_add)
  then have "(0 :: rat) \<le> 13421773 / 536870912 * of_int (i + j) - 1 / 2"
    by (rule apex_sign)
  moreover have "(0 :: rat) \<le> of_int (j - i)" using assms(3) by simp
  ultimately have "(0 :: rat) \<le> of_int (j - i) * (13421773 / 536870912 * of_int (i + j) - 1 / 2)"
    by (intro mult_nonneg_nonneg)
  then have "of_int n - of_int i / 2 + 13421773 / 536870912 * of_int i * of_int i
             \<le> (of_int n - of_int j / 2 + 13421773 / 536870912 * of_int j * of_int j :: rat)"
    by (simp only: parabola_diff [of n j i, symmetric])
  from trunc_int_mono [OF fl64_mono [OF this]] show ?thesis
    using assms by (simp add: position_exact)
qed

lemma position_ascent:
  assumes "\<bar>n\<bar> \<le> 2 ^ 22" "0 \<le> i" "i \<le> j" "j \<le> 10"
  shows "get_flappy_position \<lparr>h0 = n, t = j\<rparr> \<le> get_flappy_position \<lparr>h0 = n, t = i\<rparr>"
proof (cases "i = j")
  case True
  then show ?thesis by simp
next
  case False
  with assms have "i + j \<le> 19" by simp
  then have "(of_int (i + j) :: rat) \<le> of_int 19" by (subst of_int_le_iff)
  then have "(of_int (i + j) :: rat) \<le> 19" by (simp del: of_int_add)
  then have "13421773 / 536870912 * of_int (i + j) - 1 / 2 \<le> (0 :: rat)"
    by (rule apex_sign)
  moreover have "(0 :: rat) \<le> of_int (j - i)" using assms(3) by simp
  ultimately have "of_int (j - i) * (13421773 / 536870912 * of_int (i + j) - 1 / 2) \<le> (0 :: rat)"
    by (intro mult_nonneg_nonpos)
  then have "of_int n - of_int j / 2 + 13421773 / 536870912 * of_int j * of_int j
             \<le> (of_int n - of_int i / 2 + 13421773 / 536870912 * of_int i * of_int i :: rat)"
    by (simp only: parabola_diff [of n j i, symmetric])
  from trunc_int_mono [OF fl64_mono [OF this]] show ?thesis
    using assms by (simp add: position_exact)
qed

text \<open>
  C5, as amended. For a reference height \<open>\<bar>h0\<bar> \<le> 2 ^ 22\<close> and ticks
  \<open>0 \<le> i \<le> j \<le> 2 ^ 14\<close> (far more than a running game reaches): the test
  \<^verbatim>\<open>GRAV * t + V0 > 0\<close> holds exactly when \<open>t > 10\<close>; up to tick 10 the computed row
  never increases from a tick to a later one, and from tick 10 on (in particular wherever
  the test holds) it never decreases. So the apex, the smallest row, is at
  \<open>t = 10\<close>, which is \<open>- V0 / GRAV\<close> up to the rounding of \<open>GRAV\<close>.
\<close>

theorem position_monotone:
  assumes "\<bar>n\<bar> \<le> 2 ^ 22" "0 \<le> i" "i \<le> j" "j \<le> 2 ^ 14"
  shows "(descending \<lparr>h0 = n, t = i\<rparr> \<longleftrightarrow> 10 < i) \<and>
         (j \<le> 10 \<longrightarrow>
            get_flappy_position \<lparr>h0 = n, t = j\<rparr> \<le> get_flappy_position \<lparr>h0 = n, t = i\<rparr>) \<and>
         (10 \<le> i \<longrightarrow>
            get_flappy_position \<lparr>h0 = n, t = i\<rparr> \<le> get_flappy_position \<lparr>h0 = n, t = j\<rparr>) \<and>
         get_flappy_position \<lparr>h0 = n, t = 10\<rparr> \<le> get_flappy_position \<lparr>h0 = n, t = i\<rparr>"
proof -
  have apex: "get_flappy_position \<lparr>h0 = n, t = 10\<rparr> \<le> get_flappy_position \<lparr>h0 = n, t = i\<rparr>"
  proof (cases "i \<le> 10")
    case True
    with assms show ?thesis by (intro position_ascent) simp_all
  next
    case False
    with assms show ?thesis by (intro position_descent) simp_all
  qed
  with assms show ?thesis by (simp add: descending_iff position_ascent position_descent)
qed

theorem position_monotone_witness:
  "\<bar>12 :: int\<bar> \<le> 2 ^ 22 \<and> (0 :: int) \<le> 3 \<and> (3 :: int) \<le> 4 \<and> (4 :: int) \<le> 10 \<and>
   (4 :: int) \<le> 2 ^ 14 \<and>
   get_flappy_position \<lparr>h0 = 12, t = 4\<rparr> \<le> get_flappy_position \<lparr>h0 = 12, t = 3\<rparr> \<and>
   (10 :: int) \<le> 20 \<and> (20 :: int) \<le> 21 \<and> (21 :: int) \<le> 2 ^ 14 \<and>
   descending \<lparr>h0 = 12, t = 20\<rparr> \<and>
   get_flappy_position \<lparr>h0 = 12, t = 20\<rparr> \<le> get_flappy_position \<lparr>h0 = 12, t = 21\<rparr>"
  using position_monotone [of 12 3 4] position_monotone [of 12 20 21] by simp

text \<open>
  The claim as stated fails in two ways. The integer row is not strictly decreasing during
  the ascent: from \<open>h0 = 12\<close> the rows at ticks 1 and 2 are both 11. And for a reference
  height beyond the range of the theorem the float sum rounds: from \<open>h0 = 2 ^ 30\<close> the
  row rises from tick 6 to tick 7, before the apex, and falls from tick 64 to tick 65,
  where the test \<^verbatim>\<open>GRAV * t + V0 > 0\<close> holds.
\<close>

theorem position_monotone_counterexample:
  "\<not> descending \<lparr>h0 = 12, t = 1\<rparr> \<and> \<not> descending \<lparr>h0 = 12, t = 2\<rparr> \<and>
   \<not> get_flappy_position \<lparr>h0 = 12, t = 2\<rparr> < get_flappy_position \<lparr>h0 = 12, t = 1\<rparr> \<and>
   \<not> descending \<lparr>h0 = 1073741824, t = 7\<rparr> \<and>
   get_flappy_position \<lparr>h0 = 1073741824, t = 6\<rparr> < get_flappy_position \<lparr>h0 = 1073741824, t = 7\<rparr> \<and>
   descending \<lparr>h0 = 1073741824, t = 64\<rparr> \<and>
   get_flappy_position \<lparr>h0 = 1073741824, t = 65\<rparr> < get_flappy_position \<lparr>h0 = 1073741824, t = 64\<rparr>"
proof -
  have a: "get_flappy_position \<lparr>h0 = 12, t = 1\<rparr> = 11" by (simp add: game_eval)
  have b: "get_flappy_position \<lparr>h0 = 12, t = 2\<rparr> = 11" by (simp add: game_eval)
  have c: "get_flappy_position \<lparr>h0 = 1073741824, t = 6\<rparr> = 1073741824" by (simp add: game_eval)
  have d: "get_flappy_position \<lparr>h0 = 1073741824, t = 7\<rparr> = 1073741825" by (simp add: game_eval)
  have e: "get_flappy_position \<lparr>h0 = 1073741824, t = 64\<rparr> = 1073741926" by (simp add: game_eval)
  have f: "get_flappy_position \<lparr>h0 = 1073741824, t = 65\<rparr> = 1073741865" by (simp add: game_eval)
  show ?thesis by (simp add: descending_iff a b c d e f)
qed

subsection \<open>The height of the gap\<close>








end
